theory Spec2Isabelle
  imports Main "HOL-Library.Multiset" "HOL-Library.Char_ord" "HOL-Library.List_Lexorder"
begin

section \<open>JavaScript strings and arrays\<close>

text \<open>
  A JavaScript string is a sequence of UTF-16 code units. The model is \<open>string\<close>
  (a \<open>char list\<close>), one \<open>char\<close> per code unit, so it covers the strings whose code
  units lie in 0..255 (ASCII and Latin-1), which is where package names, versions, SPDX
  identifiers and file names live.
\<close>

abbreviation LF :: char where "LF \<equiv> CHR 0x0A"
abbreviation CR :: char where "CR \<equiv> CHR 0x0D"
abbreviation DQ :: char where "DQ \<equiv> CHR 0x22"
abbreviation BSL :: char where "BSL \<equiv> CHR 0x5C"

text \<open>\<^verbatim>\<open>String.prototype.toLowerCase\<close> on the code units 0..255: A-Z and the Latin-1
  capitals U+00C0..U+00DE (U+00D7, the multiplication sign, apart) move up by 32.\<close>

definition toLowerCase_char :: "char \<Rightarrow> char" where
  "toLowerCase_char c =
     (let n = (of_char c :: nat)
      in if (0x41 \<le> n \<and> n \<le> 0x5A) \<or> (0xC0 \<le> n \<and> n \<le> 0xDE \<and> n \<noteq> 0xD7)
         then char_of (n + 32) else c)"

definition toLowerCase :: "string \<Rightarrow> string" where
  "toLowerCase s = map toLowerCase_char s"

text \<open>\<^verbatim>\<open>String.prototype.endsWith\<close>.\<close>

definition endsWith :: "string \<Rightarrow> string \<Rightarrow> bool" where
  "endsWith s suffix =
     (length suffix \<le> length s \<and> drop (length s - length suffix) s = suffix)"

text \<open>\<^verbatim>\<open>Array.prototype.join\<close> on an array of strings.\<close>

fun join :: "string \<Rightarrow> string list \<Rightarrow> string" where
  "join sep [] = []"
| "join sep [x] = x"
| "join sep (x # y # ys) = x @ sep @ join sep (y # ys)"

text \<open>\<^verbatim>\<open>l.replace(/\r\n/g, '\n')\<close>: one pass from the left; every match of CR LF is
  replaced by LF and the scan goes on after the match.\<close>

fun replace_crlf :: "string \<Rightarrow> string" where
  "replace_crlf (c # d # rest) =
     (if c = CR \<and> d = LF then LF # replace_crlf rest else c # replace_crlf (d # rest))"
| "replace_crlf s = s"

text \<open>Truthiness of an optional string (\<^verbatim>\<open>string | undefined\<close>): \<^verbatim>\<open>undefined\<close> and
  the empty string are falsy.\<close>

definition truthy :: "string option \<Rightarrow> bool" where
  "truthy s = (case s of None \<Rightarrow> False | Some t \<Rightarrow> t \<noteq> [])"

text \<open>\<^verbatim>\<open>Array.prototype.sort(compare)\<close>: a stable sort by the comparator (ECMAScript 2019).
  The result is specified for a consistent comparator only; the model is the stable
  insertion sort, where an element goes before the first later element it does not
  exceed.\<close>

fun insert_by :: "('a \<Rightarrow> 'a \<Rightarrow> int) \<Rightarrow> 'a \<Rightarrow> 'a list \<Rightarrow> 'a list" where
  "insert_by cmp x [] = [x]"
| "insert_by cmp x (y # ys) =
     (if cmp x y \<le> 0 then x # y # ys else y # insert_by cmp x ys)"

fun sort_by :: "('a \<Rightarrow> 'a \<Rightarrow> int) \<Rightarrow> 'a list \<Rightarrow> 'a list" where
  "sort_by cmp [] = []"
| "sort_by cmp (x # xs) = insert_by cmp x (sort_by cmp xs)"

section \<open>Errors\<close>

text \<open>Everything the source throws: \<open>TypeError\<close> from calling a missing method,
  \<open>SyntaxError\<close> from \<^verbatim>\<open>new RegExp\<close> or \<^verbatim>\<open>JSON.parse\<close>, \<open>ShellError\<close> from a failed
  \<^verbatim>\<open>shell\<close> command, the errors of the file system with the path they are raised for
  (\<open>ENOENT\<close>: nothing there, or no directory to write into; \<open>EISDIR\<close>: a directory where
  a file is read or written; \<open>EACCES\<close>: no permission), and \<open>AttributionFailed\<close>, the
  \<^verbatim>\<open>Error\<close> that \<^verbatim>\<open>attribute\<close> throws with its message.\<close>

datatype error =
    TypeError
  | SyntaxError
  | ShellError
  | ENOENT string
  | EISDIR string
  | EACCES string
  | AttributionFailed string

section \<open>Attributions and their rendering\<close>

record Attribution =
  packageFqn :: string
  packageName :: string
  packageVersion :: string
  url :: string
  licenses :: "string list"
  licenseText :: "string option"
  noticeText :: "string option"

definition ATTRIBUTION_SEPARATOR :: string where
  "ATTRIBUTION_SEPARATOR = LF # ''----------------'' @ [LF]"

subsection \<open>The versions object\<close>

text \<open>
  \<^verbatim>\<open>const versions: { [key: string]: string[] } = {}\<close> is a plain object: its own
  properties in insertion order, and behind them the properties it inherits from
  \<^verbatim>\<open>Object.prototype\<close>.
\<close>

type_synonym versions = "(string \<times> string list) list"

definition object_prototype_keys :: "string list" where
  "object_prototype_keys =
     [''constructor'', ''__defineGetter__'', ''__defineSetter__'', ''hasOwnProperty'',
      ''__lookupGetter__'', ''__lookupSetter__'', ''isPrototypeOf'',
      ''propertyIsEnumerable'', ''toString'', ''valueOf'', ''__proto__'',
      ''toLocaleString'']"

text \<open>
  \<^verbatim>\<open>const versionsInUse = versions[name] ?? []; versionsInUse.push(version);
  versions[name] = versionsInUse;\<close>
  An own property is the array stored before. A name that \<^verbatim>\<open>Object.prototype\<close> has
  reads as a function (or as the prototype itself), which is not nullish and has no
  \<^verbatim>\<open>push\<close>: the call throws a TypeError. Any other name reads as \<^verbatim>\<open>undefined\<close>
  and starts a new array, stored as the last own property.
\<close>

fun versions_update :: "versions \<Rightarrow> string \<Rightarrow> string \<Rightarrow> versions" where
  "versions_update [] name v = [(name, [v])]"
| "versions_update ((k, vs) # rest) name v =
     (if k = name then (k, vs @ [v]) # rest else (k, vs) # versions_update rest name v)"

definition versions_push :: "versions \<Rightarrow> string \<Rightarrow> string \<Rightarrow> error + versions" where
  "versions_push versions name v =
     (if name \<notin> fst ` set versions \<and> name \<in> set object_prototype_keys
      then Inl TypeError
      else Inr (versions_update versions name v))"

subsection \<open>JSON.stringify(versions, null, 2)\<close>

definition hex_digit :: "nat \<Rightarrow> char" where
  "hex_digit n = (if n < 10 then char_of (0x30 + n) else char_of (0x61 + (n - 10)))"

text \<open>\<^verbatim>\<open>QuoteJSONString\<close>: the short escapes, \<^verbatim>\<open>\u00xx\<close> for the other control
  characters, every other code unit as it is.\<close>

definition json_escape_char :: "char \<Rightarrow> string" where
  "json_escape_char c =
     (let n = (of_char c :: nat)
      in if n = 0x08 then [BSL, CHR ''b'']
         else if n = 0x09 then [BSL, CHR ''t'']
         else if n = 0x0A then [BSL, CHR ''n'']
         else if n = 0x0C then [BSL, CHR ''f'']
         else if n = 0x0D then [BSL, CHR ''r'']
         else if n = 0x22 then [BSL, DQ]
         else if n = 0x5C then [BSL, BSL]
         else if n < 0x20 then BSL # ''u00'' @ [hex_digit (n div 16), hex_digit (n mod 16)]
         else [c])"

definition json_quote :: "string \<Rightarrow> string" where
  "json_quote s = DQ # concat (map json_escape_char s) @ [DQ]"

definition json_array :: "string list \<Rightarrow> string" where
  "json_array vs =
     (if vs = [] then ''[]''
      else ''['' @ [LF] @ join ('','' @ [LF]) (map (\<lambda>v. ''    '' @ json_quote v) vs)
           @ [LF] @ ''  ]'')"

text \<open>
  The own keys of an object are enumerated with the array indices first, in ascending
  numeric order, then the other string keys in insertion order. An array index is a
  canonical numeric string below \<open>2^32 - 1\<close>.
\<close>

definition is_digit :: "char \<Rightarrow> bool" where
  "is_digit c = (0x30 \<le> (of_char c :: nat) \<and> (of_char c :: nat) \<le> 0x39)"

definition digits_value :: "string \<Rightarrow> int" where
  "digits_value s = foldl (\<lambda>acc c. 10 * acc + ((of_char c :: int) - 0x30)) 0 s"

definition is_array_index :: "string \<Rightarrow> bool" where
  "is_array_index s =
     (s \<noteq> [] \<and> list_all is_digit s \<and> (s = ''0'' \<or> hd s \<noteq> CHR ''0'')
      \<and> digits_value s < 4294967295)"

definition own_keys_order :: "versions \<Rightarrow> versions" where
  "own_keys_order versions =
     sort_key (\<lambda>(k, vs). digits_value k) (filter (\<lambda>(k, vs). is_array_index k) versions)
     @ filter (\<lambda>(k, vs). \<not> is_array_index k) versions"

definition JSON_stringify :: "versions \<Rightarrow> string" where
  "JSON_stringify versions =
     (if versions = [] then ''{}''
      else ''{'' @ [LF]
           @ join ('','' @ [LF])
               (map (\<lambda>(k, vs). ''  '' @ json_quote k @ '': '' @ json_array vs)
                    (own_keys_order versions))
           @ [LF] @ ''}'')"

subsection \<open>render\<close>

text \<open>The header line \<^verbatim>\<open>`** ${title} - ${attr.url} | ${attr.licenses[0]}`\<close>. The
  flag \<open>separate\<close> is the truthiness of \<^verbatim>\<open>this.versionsPath\<close> (in the older variant
  of the class, of \<^verbatim>\<open>!this.encodeVersions\<close>). Reading index 0 of an empty array gives
  \<^verbatim>\<open>undefined\<close>, which the template prints as the text \<^verbatim>\<open>undefined\<close>.\<close>

definition first_license :: "Attribution \<Rightarrow> string" where
  "first_license attr = (case licenses attr of [] \<Rightarrow> ''undefined'' | l # _ \<Rightarrow> l)"

definition title :: "bool \<Rightarrow> Attribution \<Rightarrow> string" where
  "title separate attr = (if separate then packageName attr else packageFqn attr)"

definition header :: "bool \<Rightarrow> Attribution \<Rightarrow> string" where
  "header separate attr =
     ''** '' @ title separate attr @ '' - '' @ url attr @ '' | '' @ first_license attr"

text \<open>\<^verbatim>\<open>if (attr.noticeText) ... else if (attr.licenseText) ...\<close>: prefer notice over license.\<close>

definition body :: "Attribution \<Rightarrow> string list" where
  "body attr =
     (if truthy (noticeText attr) then [the (noticeText attr)]
      else if truthy (licenseText attr) then [the (licenseText attr)]
      else [])"

text \<open>The loop \<^verbatim>\<open>for (const attr of ordered)\<close>, on the state \<open>(content, versions)\<close>.
  The header is pushed before the versions are updated, so a TypeError leaves the loop
  with the header already in \<open>content\<close>; nothing is returned then.\<close>

fun render_loop ::
  "bool \<Rightarrow> Attribution list \<Rightarrow> string list \<times> versions \<Rightarrow> error + (string list \<times> versions)"
where
  "render_loop separate [] st = Inr st"
| "render_loop separate (attr # rest) (content, versions) =
     (case versions_push versions (packageName attr) (packageVersion attr) of
        Inl e \<Rightarrow> Inl e
      | Inr versions' \<Rightarrow>
          render_loop separate rest
            (content @ [header separate attr] @ body attr @ [ATTRIBUTION_SEPARATOR],
             versions'))"

definition preamble :: "string \<Rightarrow> Attribution list \<Rightarrow> string list" where
  "preamble pkgName attributions =
     (if length attributions > 0
      then [''The '' @ pkgName @ '' package includes the following third-party software/licensing:'',
            '''']
      else [])"

definition ordered :: "(string \<Rightarrow> string \<Rightarrow> int) \<Rightarrow> Attribution list \<Rightarrow> Attribution list" where
  "ordered localeCompare attributions =
     sort_by (\<lambda>a1 a2. localeCompare (packageFqn a1) (packageFqn a2)) attributions"

text \<open>\<open>render\<close> returns \<open>(licenses, versions)\<close>. \<^verbatim>\<open>String.prototype.localeCompare\<close> is
  the host's collation and is a parameter.\<close>

definition render ::
  "(string \<Rightarrow> string \<Rightarrow> int) \<Rightarrow> bool \<Rightarrow> string \<Rightarrow> Attribution list \<Rightarrow> error + (string \<times> string)"
where
  "render localeCompare separate pkgName attributions =
     (case render_loop separate (ordered localeCompare attributions)
             (preamble pkgName attributions, []) of
        Inl e \<Rightarrow> Inl e
      | Inr (content, versions) \<Rightarrow>
          Inr (join [LF] (map replace_crlf content), JSON_stringify versions))"

section \<open>Collecting the attributions\<close>

record Package =
  name :: string
  version :: string
  path :: string

text \<open>\<^verbatim>\<open>ModuleInfo\<close> of license-checker, the fields that are read. Its \<^verbatim>\<open>licenses\<close>
  field (here \<open>info_licenses\<close>, the Attribution has a field of that name) is a string
  or an array of strings or missing.\<close>

datatype licenses_value = Scalar string | Array "string list"

record ModuleInfo =
  info_licenses :: "licenses_value option"
  licenseFile :: "string option"
  noticeFile :: "string option"

text \<open>
  The file system. A path names a file through \<open>realpath\<close>, so that two paths can name
  one file (links, a \<^verbatim>\<open>..\<close> in the path). \<open>nodes\<close> says what is there, a regular file
  with its content or a directory. \<open>read_error\<close> and \<open>write_error\<close> are the errors the
  system raises for a path whatever the content is: no permission, and for a write also a
  directory of the path that does not exist. Only \<open>nodes\<close> changes when a file is written.
\<close>

datatype node = File string | Directory

record fs =
  realpath :: "string \<Rightarrow> string"
  nodes :: "string \<rightharpoonup> node"
  read_error :: "string \<rightharpoonup> error"
  write_error :: "string \<rightharpoonup> error"

text \<open>\<^verbatim>\<open>fs.existsSync\<close> is true for whatever is there, a directory or a file that cannot
  be read included.\<close>

definition existsSync :: "fs \<Rightarrow> string \<Rightarrow> bool" where
  "existsSync files p = (nodes files (realpath files p) \<noteq> None)"

text \<open>\<^verbatim>\<open>fs.readFileSync(p, { encoding: 'utf-8' })\<close> throws when nothing is there, when a
  directory is there and when the file cannot be read.\<close>

definition readFileSync :: "fs \<Rightarrow> string \<Rightarrow> error + string" where
  "readFileSync files p =
     (case nodes files (realpath files p) of
        None \<Rightarrow> Inl (ENOENT p)
      | Some Directory \<Rightarrow> Inl (EISDIR p)
      | Some (File c) \<Rightarrow>
          (case read_error files p of Some e \<Rightarrow> Inl e | None \<Rightarrow> Inr c))"

text \<open>\<^verbatim>\<open>fs.writeFileSync(p, c)\<close> replaces the content of the file that \<open>p\<close> names, or
  creates it; it throws on a directory and when the system refuses the write.\<close>

definition writeFileSync :: "fs \<Rightarrow> string \<Rightarrow> string \<Rightarrow> error + fs" where
  "writeFileSync files p c =
     (case nodes files (realpath files p) of
        Some Directory \<Rightarrow> Inl (EISDIR p)
      | _ \<Rightarrow>
          (case write_error files p of
             Some e \<Rightarrow> Inl e
           | None \<Rightarrow> Inr (files\<lparr> nodes := (nodes files)(realpath files p \<mapsto> File c) \<rparr>)))"

text \<open>
  What the host provides: Node's \<^verbatim>\<open>path.join\<close> and \<^verbatim>\<open>path.relative\<close>, the string
  collation \<^verbatim>\<open>localeCompare\<close>, \<^verbatim>\<open>new RegExp(pattern)\<close> (a SyntaxError, or the
  \<^verbatim>\<open>test\<close> of the compiled expression), and the license probe: \<open>license_checker cwd arg\<close>
  is the parsed output of
  \<^verbatim>\<open>license-checker --json --packages "<arg>"\<close> run in \<open>cwd\<close>, or the error of the
  shell or of \<^verbatim>\<open>JSON.parse\<close>.
\<close>

record Host =
  path_join :: "string \<Rightarrow> string \<Rightarrow> string"
  path_relative :: "string \<Rightarrow> string \<Rightarrow> string"
  localeCompare :: "string \<Rightarrow> string \<Rightarrow> int"
  RegExp_new :: "string \<Rightarrow> error + (string \<Rightarrow> bool)"
  license_checker :: "string \<Rightarrow> string \<Rightarrow> error + (string \<rightharpoonup> ModuleInfo)"

text \<open>A call of the probe, as \<open>(cwd, packages argument)\<close>. The calls made are part of
  what \<^verbatim>\<open>attribute\<close> does, so the model returns them next to the result.\<close>

type_synonym probe_call = "string \<times> string"

definition pkg :: "Package \<Rightarrow> string" where
  "pkg d = name d @ ''@'' @ version d"

definition fetchInfos :: "Host \<Rightarrow> string \<Rightarrow> string list \<Rightarrow> error + (string \<rightharpoonup> ModuleInfo)" where
  "fetchInfos host cwd packages = license_checker host cwd (join '';'' packages)"

text \<open>\<^verbatim>\<open>!info.licenses ? undefined : (Array.isArray(info.licenses) ? info.licenses :
  [info.licenses])\<close>, then \<^verbatim>\<open>licenses ?? []\<close>: a missing field and the empty string are
  falsy.\<close>

definition licenses_of :: "ModuleInfo \<Rightarrow> string list" where
  "licenses_of info =
     (case info_licenses info of
        None \<Rightarrow> []
      | Some (Scalar s) \<Rightarrow> (if s = [] then [] else [s])
      | Some (Array ls) \<Rightarrow> ls)"

text \<open>The body of the loop of \<^verbatim>\<open>attribute\<close> after \<open>info\<close> is found. The notice file is
  read first, then the license file; either read can throw.\<close>

definition make_attribution :: "fs \<Rightarrow> bool \<Rightarrow> Package \<Rightarrow> ModuleInfo \<Rightarrow> error + Attribution" where
  "make_attribution files separate dep info =
     (case (if truthy (noticeFile info)
            then map_sum id Some (readFileSync files (the (noticeFile info)))
            else Inr None) of
        Inl e \<Rightarrow> Inl e
      | Inr notice \<Rightarrow>
          (let licFile =
                 (case licenseFile info of
                    None \<Rightarrow> None
                  | Some f \<Rightarrow> if endsWith (toLowerCase f) ''.md'' then None else Some f)
           in case (if truthy licFile
                    then map_sum id Some (readFileSync files (the licFile))
                    else Inr None) of
                Inl e \<Rightarrow> Inl e
              | Inr licText \<Rightarrow>
                  (let baseUrl = ''https://www.npmjs.com/package/'' @ name dep
                   in Inr \<lparr> packageFqn = pkg dep,
                            packageName = name dep,
                            packageVersion = version dep,
                            url = (if separate then baseUrl
                                   else baseUrl @ ''/v/'' @ version dep),
                            licenses = licenses_of info,
                            licenseText = licText,
                            noticeText = notice \<rparr>)))"

text \<open>\<^verbatim>\<open>infos[key] ?? fetchInfos(dep.path, [pkg(dep)])[key]\<close>, with the calls made.\<close>

definition locate_info ::
  "Host \<Rightarrow> (string \<rightharpoonup> ModuleInfo) \<Rightarrow> Package \<Rightarrow> probe_call list \<times> (error + ModuleInfo option)"
where
  "locate_info host infos dep =
     (case infos (pkg dep) of
        Some info \<Rightarrow> ([], Inr (Some info))
      | None \<Rightarrow>
          ([(path dep, join '';'' [pkg dep])],
           case fetchInfos host (path dep) [pkg dep] of
             Inl e \<Rightarrow> Inl e
           | Inr own \<Rightarrow> Inr (own (pkg dep))))"

definition not_located :: "Package \<Rightarrow> string" where
  "not_located dep =
     ''Unable to locate license information for '' @ pkg dep @ '' ('' @ path dep @ '')''"

text \<open>The loop \<^verbatim>\<open>for (const dep of this.dependencies)\<close>; the state is the calls made
  so far and the attributions pushed so far.\<close>

fun attribute_loop ::
  "Host \<Rightarrow> fs \<Rightarrow> bool \<Rightarrow> (string \<rightharpoonup> ModuleInfo) \<Rightarrow> Package list
     \<Rightarrow> probe_call list \<Rightarrow> Attribution list \<Rightarrow> probe_call list \<times> (error + Attribution list)"
where
  "attribute_loop host files separate infos [] calls attributions = (calls, Inr attributions)"
| "attribute_loop host files separate infos (dep # rest) calls attributions =
     (case locate_info host infos dep of
        (made, Inl e) \<Rightarrow> (calls @ made, Inl e)
      | (made, Inr None) \<Rightarrow> (calls @ made, Inl (AttributionFailed (not_located dep)))
      | (made, Inr (Some info)) \<Rightarrow>
          (case make_attribution files separate dep info of
             Inl e \<Rightarrow> (calls @ made, Inl e)
           | Inr a \<Rightarrow>
               attribute_loop host files separate infos rest (calls @ made)
                 (attributions @ [a])))"

definition attribute ::
  "Host \<Rightarrow> fs \<Rightarrow> bool \<Rightarrow> string \<Rightarrow> Package list \<Rightarrow> probe_call list \<times> (error + Attribution list)"
where
  "attribute host files separate dependenciesRoot dependencies =
     (if length dependencies = 0 then ([], Inr [])
      else
        let packages = map pkg dependencies;
            global = (dependenciesRoot, join '';'' packages)
        in case fetchInfos host dependenciesRoot packages of
             Inl e \<Rightarrow> ([global], Inl e)
           | Inr infos \<Rightarrow>
               attribute_loop host files separate infos dependencies [global] [])"

section \<open>The class Attributions\<close>

text \<open>The variant of the class with \<^verbatim>\<open>licensesPath\<close> and \<^verbatim>\<open>versionsPath\<close>. The fields of
  the properties carry the prefix \<open>props_\<close> and those of the object the prefix
  \<open>this_\<close>, since the source uses the same names in both.\<close>

record AttributionsProps =
  props_packageDir :: string
  props_packageName :: string
  props_dependencies :: "Package list"
  props_dependenciesRoot :: string
  props_licensesPath :: string
  props_allowedLicenses :: "string list"
  props_exclude :: "string option"
  props_versionsPath :: "string option"

record Attributions =
  this_packageDir :: string
  this_packageName :: string
  this_dependencies :: "Package list"
  this_allowedLicenses :: "string list"
  this_dependenciesRoot :: string
  this_licensesPath :: string
  this_versionsPath :: "string option"
  this_attributions :: "Attribution list"
  this_licenses :: string
  this_versions :: string

text \<open>\<^verbatim>\<open>props.dependencies.filter(d => !props.exclude || !new RegExp(props.exclude).test(d.name))\<close>.
  The expression is compiled inside the callback, so on an empty list it is never
  compiled and cannot throw.\<close>

definition filter_dependencies :: "Host \<Rightarrow> string option \<Rightarrow> Package list \<Rightarrow> error + Package list" where
  "filter_dependencies host exclude deps =
     (if \<not> truthy exclude \<or> deps = [] then Inr deps
      else case RegExp_new host (the exclude) of
             Inl e \<Rightarrow> Inl e
           | Inr test \<Rightarrow> Inr (filter (\<lambda>d. \<not> test (name d)) deps))"

definition Attributions_new ::
  "Host \<Rightarrow> fs \<Rightarrow> AttributionsProps \<Rightarrow> probe_call list \<times> (error + Attributions)"
where
  "Attributions_new host files props =
     (let licensesPath = path_join host (props_packageDir props) (props_licensesPath props);
          versionsPath =
            (if truthy (props_versionsPath props)
             then Some (path_join host (props_packageDir props) (the (props_versionsPath props)))
             else None)
      in case filter_dependencies host (props_exclude props) (props_dependencies props) of
           Inl e \<Rightarrow> ([], Inl e)
         | Inr dependencies \<Rightarrow>
             (case attribute host files (truthy versionsPath) (props_dependenciesRoot props)
                     dependencies of
                (calls, Inl e) \<Rightarrow> (calls, Inl e)
              | (calls, Inr attributions) \<Rightarrow>
                  (case render (localeCompare host) (truthy versionsPath)
                          (props_packageName props) attributions of
                     Inl e \<Rightarrow> (calls, Inl e)
                   | Inr (licensesText, versionsText) \<Rightarrow>
                       (calls,
                        Inr \<lparr> this_packageDir = props_packageDir props,
                              this_packageName = props_packageName props,
                              this_dependencies = dependencies,
                              this_allowedLicenses =
                                map toLowerCase (props_allowedLicenses props),
                              this_dependenciesRoot = props_dependenciesRoot props,
                              this_licensesPath = licensesPath,
                              this_versionsPath = versionsPath,
                              this_attributions = attributions,
                              this_licenses = licensesText,
                              this_versions = versionsText \<rparr>))))"

subsection \<open>flush\<close>

text \<open>\<open>flush\<close> returns the error it throws, if any, and the file system it leaves: when
  the second write throws, the first one has been made.\<close>

definition flush :: "Attributions \<Rightarrow> fs \<Rightarrow> error option \<times> fs" where
  "flush this files =
     (case writeFileSync files (this_licensesPath this) (this_licenses this) of
        Inl e \<Rightarrow> (Some e, files)
      | Inr files' \<Rightarrow>
          if truthy (this_versionsPath this)
          then (case writeFileSync files' (the (this_versionsPath this)) (this_versions this) of
                  Inl e \<Rightarrow> (Some e, files')
                | Inr files'' \<Rightarrow> (None, files''))
          else (None, files'))"

subsection \<open>validate\<close>

datatype ViolationType =
    INVALID_LICENSE
  | NO_LICENSE
  | MULTIPLE_LICENSE
  | MISSING_LICENSES
  | OUTDATED_LICENSES
  | MISSING_VERSIONS
  | OUTDATED_VERSIONS

text \<open>A violation (fields \<^verbatim>\<open>type\<close>, \<^verbatim>\<open>message\<close>, \<^verbatim>\<open>fix\<close>; two of the names are
  keywords here). The fix is the closure \<^verbatim>\<open>() => this.flush()\<close>, as what it does to the
  file system.\<close>

record Violation =
  violation_type :: ViolationType
  message :: string
  violation_fix :: "(fs \<Rightarrow> error option \<times> fs) option"

text \<open>A template prints the \<^verbatim>\<open>undefined\<close> of an unset path as text.\<close>

definition show_path :: "string option \<Rightarrow> string" where
  "show_path p = (case p of None \<Rightarrow> ''undefined'' | Some r \<Rightarrow> r)"

definition invalidLicense :: "Attributions \<Rightarrow> Violation list" where
  "invalidLicense this =
     map (\<lambda>a. \<lparr> violation_type = INVALID_LICENSE,
                message = ''Dependency '' @ packageFqn a @ '' has an invalid license: ''
                          @ first_license a,
                violation_fix = None \<rparr>)
       (filter (\<lambda>a. length (licenses a) = 1
                    \<and> toLowerCase (first_license a) \<notin> set (this_allowedLicenses this))
          (this_attributions this))"

definition noLicense :: "Attributions \<Rightarrow> Violation list" where
  "noLicense this =
     map (\<lambda>a. \<lparr> violation_type = NO_LICENSE,
                message = ''Dependency '' @ packageFqn a @ '' has no license'',
                violation_fix = None \<rparr>)
       (filter (\<lambda>a. length (licenses a) = 0) (this_attributions this))"

text \<open>\<^verbatim>\<open>${a.licenses}\<close> prints an array as its elements joined by commas.\<close>

definition multiLicense :: "Attributions \<Rightarrow> Violation list" where
  "multiLicense this =
     map (\<lambda>a. \<lparr> violation_type = MULTIPLE_LICENSE,
                message = ''Dependency '' @ packageFqn a @ '' has multiple licenses: ''
                          @ join '','' (licenses a),
                violation_fix = None \<rparr>)
       (filter (\<lambda>a. length (licenses a) > 1) (this_attributions this))"

text \<open>\<open>validate\<close> reads the licenses file and then the versions file, each only if it
  exists; a read that throws ends \<open>validate\<close> with the error, and no report is returned.\<close>

definition validate :: "Host \<Rightarrow> fs \<Rightarrow> Attributions \<Rightarrow> error + Violation list" where
  "validate host files this =
     (let relLicensesPath = path_relative host (this_packageDir this) (this_licensesPath this);
          relVersionsPath =
            (if truthy (this_versionsPath this)
             then Some (path_relative host (this_packageDir this) (the (this_versionsPath this)))
             else None);
          fixer = flush this;
          missingLicenses = (\<not> existsSync files (this_licensesPath this));
          missingVersions =
            (truthy (this_versionsPath this)
             \<and> \<not> existsSync files (the (this_versionsPath this)))
      in case (if missingLicenses then Inr None
               else map_sum id Some (readFileSync files (this_licensesPath this))) of
           Inl e \<Rightarrow> Inl e
         | Inr licensesText \<Rightarrow>
             (case (if missingVersions \<or> \<not> truthy (this_versionsPath this) then Inr None
                    else map_sum id Some (readFileSync files (the (this_versionsPath this)))) of
                Inl e \<Rightarrow> Inl e
              | Inr versionsText \<Rightarrow>
                  (let outdatedLicenses =
                         (licensesText \<noteq> None \<and> licensesText \<noteq> Some (this_licenses this));
                       outdatedVersions =
                         (versionsText \<noteq> None \<and> versionsText \<noteq> Some (this_versions this))
                   in Inr
                        ((if missingLicenses
                          then [\<lparr> violation_type = MISSING_LICENSES,
                                  message = relLicensesPath @ '' is missing'',
                                  violation_fix = Some fixer \<rparr>]
                          else [])
                         @ (if outdatedLicenses
                            then [\<lparr> violation_type = OUTDATED_LICENSES,
                                    message = relLicensesPath @ '' is outdated'',
                                    violation_fix = Some fixer \<rparr>]
                            else [])
                         @ (if missingVersions
                            then [\<lparr> violation_type = MISSING_VERSIONS,
                                    message = show_path relVersionsPath @ '' is missing'',
                                    violation_fix = Some fixer \<rparr>]
                            else [])
                         @ (if outdatedVersions
                            then [\<lparr> violation_type = OUTDATED_VERSIONS,
                                    message = show_path relVersionsPath @ '' is outdated'',
                                    violation_fix = Some fixer \<rparr>]
                            else [])
                         @ invalidLicense this @ noLicense this @ multiLicense this))))"

subsection \<open>Validation with fix\<close>

text \<open>
  Modelled from the spec: \<^verbatim>\<open>Bundle.validate({ fix: true })\<close>, the orchestrator that runs
  the fixers, is not among the sources. The spec (4.7): with \<open>fix=true\<close>, each fixable
  violation's fixer is invoked exactly once in the order violations were produced, and the
  report returned still lists the violations detected. A fixer that throws ends the run
  with its error, as any exception does.
\<close>

fun run_fixes :: "Violation list \<Rightarrow> fs \<Rightarrow> error option \<times> fs" where
  "run_fixes [] files = (None, files)"
| "run_fixes (v # vs) files =
     (case violation_fix v of
        None \<Rightarrow> run_fixes vs files
      | Some f \<Rightarrow>
          (case f files of
             (Some e, files') \<Rightarrow> (Some e, files')
           | (None, files') \<Rightarrow> run_fixes vs files'))"

definition validate_fix :: "Host \<Rightarrow> fs \<Rightarrow> Attributions \<Rightarrow> (error + Violation list) \<times> fs" where
  "validate_fix host files this =
     (case validate host files this of
        Inl e \<Rightarrow> (Inl e, files)
      | Inr violations \<Rightarrow>
          (case run_fixes violations files of
             (Some e, files') \<Rightarrow> (Inl e, files')
           | (None, files') \<Rightarrow> (Inr violations, files')))"

section \<open>Notions used by the statements\<close>

text \<open>What the loop of \<open>render\<close> pushes for one attribution: the header, the body, the
  separator.\<close>

definition block :: "bool \<Rightarrow> Attribution \<Rightarrow> string list" where
  "block separate attr = [header separate attr] @ body attr @ [ATTRIBUTION_SEPARATOR]"

text \<open>The versions object after the loop has gone through \<open>attrs\<close>, starting from
  \<open>vs\<close>.\<close>

definition collect_versions :: "versions \<Rightarrow> Attribution list \<Rightarrow> versions" where
  "collect_versions vs attrs =
     foldl (\<lambda>acc a. versions_update acc (packageName a) (packageVersion a)) vs attrs"

text \<open>A comparator that \<^verbatim>\<open>sort\<close> can rely on: any two elements are comparable and
  the order is transitive.\<close>

definition consistent :: "('a \<Rightarrow> 'a \<Rightarrow> int) \<Rightarrow> bool" where
  "consistent cmp \<longleftrightarrow>
     (\<forall>a b. cmp a b \<le> 0 \<or> cmp b a \<le> 0) \<and>
     (\<forall>a b c. cmp a b \<le> 0 \<longrightarrow> cmp b c \<le> 0 \<longrightarrow> cmp a c \<le> 0)"

text \<open>Two collations a host can have. \<open>code_unit_compare\<close> orders strings by their code
  units (the order of \<^verbatim>\<open><\<close> on strings, and of \<^verbatim>\<open>localeCompare\<close> in a build
  without internationalisation data). \<open>letter_collation\<close> compares as the Unicode
  collation of an ICU build does on letters and digits: first without regard to case,
  and between strings that differ in case only, lower case first; so \<^verbatim>\<open>a\<close> sorts
  before \<^verbatim>\<open>B\<close>, which code units put the other way round.\<close>

definition code_unit_compare :: "string \<Rightarrow> string \<Rightarrow> int" where
  "code_unit_compare a b = (if a < b then - 1 else if a = b then 0 else 1)"

definition letter_collation :: "string \<Rightarrow> string \<Rightarrow> int" where
  "letter_collation a b =
     (if toLowerCase a < toLowerCase b then - 1
      else if toLowerCase b < toLowerCase a then 1
      else if a = b then 0
      else if b < a then - 1 else 1)"

text \<open>The license violation of one attribution, as the specification words it: none for
  exactly one license that, lowercased, is in the (lowercased) allow-list; invalid-license
  for exactly one license that is not; no-license for none; multiple-license, with the
  comma-joined list, for two or more.\<close>

definition license_violation :: "string list \<Rightarrow> Attribution \<Rightarrow> Violation option" where
  "license_violation allowed a =
     (case licenses a of
        [] \<Rightarrow>
          Some \<lparr> violation_type = NO_LICENSE,
                 message = ''Dependency '' @ packageFqn a @ '' has no license'',
                 violation_fix = None \<rparr>
      | [l] \<Rightarrow>
          if toLowerCase l \<in> set allowed then None
          else Some \<lparr> violation_type = INVALID_LICENSE,
                      message = ''Dependency '' @ packageFqn a @ '' has an invalid license: '' @ l,
                      violation_fix = None \<rparr>
      | l # l' # ls \<Rightarrow>
          Some \<lparr> violation_type = MULTIPLE_LICENSE,
                 message = ''Dependency '' @ packageFqn a @ '' has multiple licenses: ''
                           @ join '','' (l # l' # ls),
                 violation_fix = None \<rparr>)"

text \<open>The three kinds of license violations.\<close>

definition is_license_violation :: "Violation \<Rightarrow> bool" where
  "is_license_violation v =
     (violation_type v \<in> {INVALID_LICENSE, NO_LICENSE, MULTIPLE_LICENSE})"

text \<open>The content of the regular file that a path names, when there is one that can be
  read.\<close>

definition file_content :: "fs \<Rightarrow> string \<Rightarrow> string option" where
  "file_content files p =
     (case nodes files (realpath files p) of
        Some (File c) \<Rightarrow> (if read_error files p = None then Some c else None)
      | _ \<Rightarrow> None)"

text \<open>Something is at the path and reading it throws: a directory, or a file that cannot
  be read.\<close>

definition read_fails :: "fs \<Rightarrow> string \<Rightarrow> bool" where
  "read_fails files p = (existsSync files p \<and> isl (readFileSync files p))"

text \<open>The violations of the attribution files as the specification words them:
  missing-licenses when nothing is at \<open>licensesPath\<close>, outdated-licenses when the file
  there has another content than the document, missing-versions and outdated-versions
  alike for \<open>versionsPath\<close> when it is set; each with the fix \<open>flush\<close>.\<close>

definition file_part :: "Host \<Rightarrow> fs \<Rightarrow> Attributions \<Rightarrow> Violation list" where
  "file_part host files this =
     (if \<not> existsSync files (this_licensesPath this)
      then [\<lparr> violation_type = MISSING_LICENSES,
              message = path_relative host (this_packageDir this) (this_licensesPath this)
                        @ '' is missing'',
              violation_fix = Some (flush this) \<rparr>]
      else [])
     @ (if file_content files (this_licensesPath this) \<noteq> None
           \<and> file_content files (this_licensesPath this) \<noteq> Some (this_licenses this)
        then [\<lparr> violation_type = OUTDATED_LICENSES,
                message = path_relative host (this_packageDir this) (this_licensesPath this)
                          @ '' is outdated'',
                violation_fix = Some (flush this) \<rparr>]
        else [])
     @ (if truthy (this_versionsPath this) \<and> \<not> existsSync files (the (this_versionsPath this))
        then [\<lparr> violation_type = MISSING_VERSIONS,
                message = path_relative host (this_packageDir this) (the (this_versionsPath this))
                          @ '' is missing'',
                violation_fix = Some (flush this) \<rparr>]
        else [])
     @ (if truthy (this_versionsPath this)
           \<and> file_content files (the (this_versionsPath this)) \<noteq> None
           \<and> file_content files (the (this_versionsPath this)) \<noteq> Some (this_versions this)
        then [\<lparr> violation_type = OUTDATED_VERSIONS,
                message = path_relative host (this_packageDir this) (the (this_versionsPath this))
                          @ '' is outdated'',
                violation_fix = Some (flush this) \<rparr>]
        else [])"

text \<open>A file name that ends in \<^verbatim>\<open>.md\<close>, whatever the case of the two letters.\<close>

definition ends_in_md :: "string \<Rightarrow> bool" where
  "ends_in_md f =
     (3 \<le> length f \<and> drop (length f - 3) f \<in> set [''.md'', ''.mD'', ''.Md'', ''.MD''])"

text \<open>The calls of the probe in the directories of the dependencies that the global
  result \<open>infos\<close> does not know, in the order of the dependencies.\<close>

definition fallback_calls :: "(string \<rightharpoonup> ModuleInfo) \<Rightarrow> Package list \<Rightarrow> probe_call list" where
  "fallback_calls infos deps =
     map (\<lambda>d. (path d, pkg d)) (filter (\<lambda>d. infos (pkg d) = None) deps)"






subsection \<open>A package tree to evaluate on\<close>

text \<open>
  The package \<^verbatim>\<open>consumer\<close> with three dependencies. The global run of the probe knows
  \<^verbatim>\<open>dep1\<close> and \<^verbatim>\<open>Dep3\<close>; \<^verbatim>\<open>dep2\<close> is found by the run in its own directory only. \<^verbatim>\<open>dep2\<close>
  declares two licenses, has a notice file and a README.md as license file; \<^verbatim>\<open>Dep3\<close>
  declares no license.
\<close>

definition dep1 :: Package where
  "dep1 = \<lparr> name = ''dep1'', version = ''0.0.0'', path = ''/consumer/node_modules/dep1'' \<rparr>"

definition dep2 :: Package where
  "dep2 = \<lparr> name = ''dep2'', version = ''0.0.0'', path = ''/consumer/node_modules/dep2'' \<rparr>"

definition Dep3 :: Package where
  "Dep3 = \<lparr> name = ''Dep3'', version = ''1.2.0'', path = ''/consumer/node_modules/Dep3'' \<rparr>"

definition info1 :: ModuleInfo where
  "info1 = \<lparr> info_licenses = Some (Scalar ''mit''),
             licenseFile = Some ''/consumer/node_modules/dep1/LICENSE'',
             noticeFile = None \<rparr>"

definition info2 :: ModuleInfo where
  "info2 = \<lparr> info_licenses = Some (Array [''Apache-2.0'', ''MIT'']),
             licenseFile = Some ''/consumer/node_modules/dep2/README.MD'',
             noticeFile = Some ''/consumer/node_modules/dep2/NOTICE'' \<rparr>"

definition info3 :: ModuleInfo where
  "info3 = \<lparr> info_licenses = None, licenseFile = None, noticeFile = None \<rparr>"

definition tree_infos :: "string \<rightharpoonup> ModuleInfo" where
  "tree_infos = [''dep1@0.0.0'' \<mapsto> info1, ''Dep3@1.2.0'' \<mapsto> info3]"

text \<open>A dependency that no run of the probe knows.\<close>

definition ghost :: Package where
  "ghost = \<lparr> name = ''ghost'', version = ''1.0.0'', path = ''/consumer/node_modules/ghost'' \<rparr>"

text \<open>The disk of the tree: three regular files, every path its own name but
  \<^verbatim>\<open>/consumer/LICENSES_LINK\<close>, a second name of \<^verbatim>\<open>/consumer/THIRD_PARTY_LICENSES\<close>; the
  system refuses nothing.\<close>

definition tree_files :: fs where
  "tree_files =
     \<lparr> realpath = (\<lambda>p. if p = ''/consumer/LICENSES_LINK''
                          then ''/consumer/THIRD_PARTY_LICENSES'' else p),
       nodes =
         [''/consumer/node_modules/dep1/LICENSE''
             \<mapsto> File (''MIT License'' @ [CR, LF] @ ''Copyright''),
          ''/consumer/node_modules/dep2/README.MD'' \<mapsto> File ''# dep2'',
          ''/consumer/node_modules/dep2/NOTICE'' \<mapsto> File ''dep2 notice''],
       read_error = Map.empty,
       write_error = Map.empty \<rparr>"

text \<open>For the host's regular expressions it is enough here that a pattern of letters and
  digits matches the strings that contain it.\<close>

definition contains :: "string \<Rightarrow> string \<Rightarrow> bool" where
  "contains s p = list_ex (\<lambda>i. take (length p) (drop i s) = p) [0..<Suc (length s)]"

definition tree_host :: Host where
  "tree_host =
     \<lparr> path_join = (\<lambda>a b. a @ ''/'' @ b),
       path_relative = (\<lambda>from to. drop (Suc (length from)) to),
       localeCompare = letter_collation,
       RegExp_new = (\<lambda>p. Inr (\<lambda>s. contains s p)),
       license_checker =
         (\<lambda>cwd arg.
            if cwd = ''/consumer/node_modules''
            then Inr tree_infos
            else if cwd = ''/consumer/node_modules/dep2''
            then Inr [''dep2@0.0.0'' \<mapsto> info2]
            else Inr Map.empty) \<rparr>"

definition tree_props :: AttributionsProps where
  "tree_props =
     \<lparr> props_packageDir = ''/consumer'',
       props_packageName = ''consumer'',
       props_dependencies = [dep2, Dep3, dep1],
       props_dependenciesRoot = ''/consumer/node_modules'',
       props_licensesPath = ''THIRD_PARTY_LICENSES'',
       props_allowedLicenses = [''Apache-2.0'', ''MIT''],
       props_exclude = None,
       props_versionsPath = Some ''THIRD_PARTY_VERSIONS'' \<rparr>"

text \<open>What the constructor computes on this tree: the calls of the probe and the object.\<close>

definition tree_calls :: "probe_call list" where
  "tree_calls =
     [(''/consumer/node_modules'', ''dep2@0.0.0;Dep3@1.2.0;dep1@0.0.0''),
      (''/consumer/node_modules/dep2'', ''dep2@0.0.0'')]"

definition tree_attributions :: "Attribution list" where
  "tree_attributions =
     [\<lparr> packageFqn = ''dep2@0.0.0'', packageName = ''dep2'', packageVersion = ''0.0.0'',
        url = ''https://www.npmjs.com/package/dep2'',
        licenses = [''Apache-2.0'', ''MIT''],
        licenseText = None, noticeText = Some ''dep2 notice'' \<rparr>,
      \<lparr> packageFqn = ''Dep3@1.2.0'', packageName = ''Dep3'', packageVersion = ''1.2.0'',
        url = ''https://www.npmjs.com/package/Dep3'',
        licenses = [],
        licenseText = None, noticeText = None \<rparr>,
      \<lparr> packageFqn = ''dep1@0.0.0'', packageName = ''dep1'', packageVersion = ''0.0.0'',
        url = ''https://www.npmjs.com/package/dep1'',
        licenses = [''mit''],
        licenseText = Some (''MIT License'' @ [CR, LF] @ ''Copyright''), noticeText = None \<rparr>]"

definition tree_licenses :: string where
  "tree_licenses =
     ''The consumer package includes the following third-party software/licensing:'' @ [LF]
     @ [LF]
     @ ''** dep1 - https://www.npmjs.com/package/dep1 | mit'' @ [LF]
     @ ''MIT License'' @ [LF]
     @ ''Copyright'' @ [LF]
     @ [LF] @ ''----------------'' @ [LF]
     @ [LF]
     @ ''** dep2 - https://www.npmjs.com/package/dep2 | Apache-2.0'' @ [LF]
     @ ''dep2 notice'' @ [LF]
     @ [LF] @ ''----------------'' @ [LF]
     @ [LF]
     @ ''** Dep3 - https://www.npmjs.com/package/Dep3 | undefined'' @ [LF]
     @ [LF] @ ''----------------'' @ [LF]"

definition tree_versions :: string where
  "tree_versions =
     ''{'' @ [LF]
     @ ''  '' @ [DQ] @ ''dep1'' @ [DQ] @ '': ['' @ [LF]
     @ ''    '' @ [DQ] @ ''0.0.0'' @ [DQ] @ [LF]
     @ ''  ],'' @ [LF]
     @ ''  '' @ [DQ] @ ''dep2'' @ [DQ] @ '': ['' @ [LF]
     @ ''    '' @ [DQ] @ ''0.0.0'' @ [DQ] @ [LF]
     @ ''  ],'' @ [LF]
     @ ''  '' @ [DQ] @ ''Dep3'' @ [DQ] @ '': ['' @ [LF]
     @ ''    '' @ [DQ] @ ''1.2.0'' @ [DQ] @ [LF]
     @ ''  ]'' @ [LF]
     @ ''}''"

definition tree_this :: Attributions where
  "tree_this =
     \<lparr> this_packageDir = ''/consumer'',
       this_packageName = ''consumer'',
       this_dependencies = [dep2, Dep3, dep1],
       this_allowedLicenses = [''apache-2.0'', ''mit''],
       this_dependenciesRoot = ''/consumer/node_modules'',
       this_licensesPath = ''/consumer/THIRD_PARTY_LICENSES'',
       this_versionsPath = Some ''/consumer/THIRD_PARTY_VERSIONS'',
       this_attributions = tree_attributions,
       this_licenses = tree_licenses,
       this_versions = tree_versions \<rparr>"

text \<open>The tree with both attribution files present and out of date.\<close>

definition stale_files :: fs where
  "stale_files =
     tree_files\<lparr> nodes := (nodes tree_files)
       (''/consumer/THIRD_PARTY_LICENSES'' \<mapsto> File ''outdated'',
        ''/consumer/THIRD_PARTY_VERSIONS'' \<mapsto> File ''{}'') \<rparr>"

text \<open>The tree with a directory where the licenses file is expected.\<close>

definition directory_files :: fs where
  "directory_files =
     tree_files\<lparr> nodes := (nodes tree_files)
       (''/consumer/THIRD_PARTY_LICENSES'' \<mapsto> Directory) \<rparr>"

text \<open>The tree's configuration with \<^verbatim>\<open>dep2\<close> excluded from the attributions.\<close>

definition excluding_props :: AttributionsProps where
  "excluding_props = tree_props\<lparr> props_exclude := Some ''dep2'' \<rparr>"



section \<open>Properties\<close>

lemma consistent_code_unit_compare: "consistent code_unit_compare"
  unfolding consistent_def code_unit_compare_def by (auto split: if_splits)

lemma consistent_letter_collation: "consistent letter_collation"
  unfolding consistent_def letter_collation_def by (auto split: if_splits)


lemma keys_versions_update:
  "fst ` set (versions_update vs n v) = insert n (fst ` set vs)"
  by (induction vs n v rule: versions_update.induct) auto

lemma render_loop_Inr:
  assumes "fst ` set vs \<inter> set object_prototype_keys = {}"
    and "\<forall>a\<in>set attrs. packageName a \<notin> set object_prototype_keys"
  shows "render_loop sep attrs (c, vs) =
           Inr (c @ concat (map (block sep) attrs), collect_versions vs attrs)"
  using assms
proof (induction attrs arbitrary: c vs)
  case Nil
  then show ?case by (simp add: collect_versions_def)
next
  case (Cons a attrs)
  have ok: "packageName a \<notin> set object_prototype_keys"
    using Cons.prems(2) by simp
  let ?vs' = "versions_update vs (packageName a) (packageVersion a)"
  have push: "versions_push vs (packageName a) (packageVersion a) = Inr ?vs'"
    using ok by (simp add: versions_push_def)
  have inv: "fst ` set ?vs' \<inter> set object_prototype_keys = {}"
    using Cons.prems(1) ok by (simp add: keys_versions_update)
  have rest: "\<forall>a\<in>set attrs. packageName a \<notin> set object_prototype_keys"
    using Cons.prems(2) by simp
  show ?case
    using Cons.IH [OF inv rest] push
    by (simp add: block_def collect_versions_def)
qed

lemma render_loop_Inl:
  assumes "fst ` set vs \<inter> set object_prototype_keys = {}"
    and "\<exists>a\<in>set attrs. packageName a \<in> set object_prototype_keys"
  shows "render_loop sep attrs (c, vs) = Inl TypeError"
  using assms
proof (induction attrs arbitrary: c vs)
  case Nil
  then show ?case by simp
next
  case (Cons a attrs)
  show ?case
  proof (cases "packageName a \<in> set object_prototype_keys")
    case True
    then have "packageName a \<notin> fst ` set vs" using Cons.prems(1) by blast
    then show ?thesis using True by (simp add: versions_push_def)
  next
    case False
    let ?vs' = "versions_update vs (packageName a) (packageVersion a)"
    have push: "versions_push vs (packageName a) (packageVersion a) = Inr ?vs'"
      using False by (simp add: versions_push_def)
    have inv: "fst ` set ?vs' \<inter> set object_prototype_keys = {}"
      using Cons.prems(1) False by (simp add: keys_versions_update)
    have rest: "\<exists>a\<in>set attrs. packageName a \<in> set object_prototype_keys"
      using Cons.prems(2) False by auto
    show ?thesis using Cons.IH [OF inv rest] push by simp
  qed
qed

lemma mset_insert_by: "mset (insert_by cmp x xs) = add_mset x (mset xs)"
  by (induction xs) auto

lemma mset_sort_by: "mset (sort_by cmp xs) = mset xs"
  by (induction xs) (auto simp: mset_insert_by)

lemma set_insert_by: "set (insert_by cmp x xs) = insert x (set xs)"
  by (induction xs) auto

lemma set_sort_by: "set (sort_by cmp xs) = set xs"
  by (induction xs) (auto simp: set_insert_by)

lemma length_sort_by: "length (sort_by cmp xs) = length xs"
  by (metis mset_sort_by size_mset)

lemma sorted_insert_by:
  assumes "consistent cmp" and "sorted_wrt (\<lambda>a b. cmp a b \<le> 0) xs"
  shows "sorted_wrt (\<lambda>a b. cmp a b \<le> 0) (insert_by cmp x xs)"
  using assms(2)
proof (induction xs)
  case Nil
  then show ?case by simp
next
  case (Cons y ys)
  show ?case
  proof (cases "cmp x y \<le> 0")
    case True
    have "\<forall>z\<in>set ys. cmp x z \<le> 0"
      using True Cons.prems assms(1) unfolding consistent_def
      by (metis sorted_wrt.simps(2))
    then show ?thesis using True Cons.prems by simp
  next
    case False
    then have "cmp y x \<le> 0" using assms(1) unfolding consistent_def by metis
    then show ?thesis using False Cons by (auto simp: set_insert_by)
  qed
qed

lemma sorted_sort_by:
  "consistent cmp \<Longrightarrow> sorted_wrt (\<lambda>a b. cmp a b \<le> 0) (sort_by cmp xs)"
  by (induction xs) (auto simp: sorted_insert_by)

lemma consistent_on_key:
  "consistent cmp \<Longrightarrow> consistent (\<lambda>a b. cmp (f a) (f b))"
  unfolding consistent_def by blast

lemma set_ordered: "set (ordered cmp attrs) = set attrs"
  by (simp add: ordered_def set_sort_by)

lemma mset_ordered: "mset (ordered cmp attrs) = mset attrs"
  by (simp add: ordered_def mset_sort_by)

lemma sorted_ordered:
  "consistent cmp \<Longrightarrow>
   sorted_wrt (\<lambda>a b. cmp (packageFqn a) (packageFqn b) \<le> 0) (ordered cmp attrs)"
  unfolding ordered_def
  using sorted_sort_by [OF consistent_on_key [of cmp packageFqn]] by blast

lemma render_Inr:
  assumes "\<forall>a\<in>set attrs. packageName a \<notin> set object_prototype_keys"
  shows "render cmp sep pn attrs =
           Inr (join [LF] (map replace_crlf
                  (preamble pn attrs @ concat (map (block sep) (ordered cmp attrs)))),
                JSON_stringify (collect_versions [] (ordered cmp attrs)))"
proof -
  have "\<forall>a\<in>set (ordered cmp attrs). packageName a \<notin> set object_prototype_keys"
    using assms by (simp add: set_ordered)
  then have "render_loop sep (ordered cmp attrs) (preamble pn attrs, []) =
               Inr (preamble pn attrs @ concat (map (block sep) (ordered cmp attrs)),
                    collect_versions [] (ordered cmp attrs))"
    by (intro render_loop_Inr) simp_all
  then show ?thesis by (simp add: render_def)
qed

lemma render_Inl:
  assumes "\<exists>a\<in>set attrs. packageName a \<in> set object_prototype_keys"
  shows "render cmp sep pn attrs = Inl TypeError"
proof -
  have "\<exists>a\<in>set (ordered cmp attrs). packageName a \<in> set object_prototype_keys"
    using assms by (simp add: set_ordered)
  then have "render_loop sep (ordered cmp attrs) (preamble pn attrs, []) = Inl TypeError"
    by (intro render_loop_Inl) simp_all
  then show ?thesis by (simp add: render_def)
qed

lemma render_cases:
  "render cmp sep pn attrs = Inr r \<Longrightarrow>
   r = (join [LF] (map replace_crlf
                  (preamble pn attrs @ concat (map (block sep) (ordered cmp attrs)))),
        JSON_stringify (collect_versions [] (ordered cmp attrs)))"
  by (cases "\<exists>a\<in>set attrs. packageName a \<in> set object_prototype_keys")
     (use render_Inl [of attrs cmp sep pn] render_Inr [of attrs cmp sep pn] in auto)


lemma replace_crlf_id: "CR \<notin> set s \<Longrightarrow> replace_crlf s = s"
  by (induction s rule: replace_crlf.induct) auto

lemma make_attribution_Inr:
  assumes "make_attribution files sep dep info = Inr a"
  shows "packageFqn a = pkg dep \<and> packageName a = name dep \<and> packageVersion a = version dep
         \<and> licenses a = licenses_of info"
  using assms unfolding make_attribution_def
  by (auto simp: Let_def split: sum.splits if_splits)

lemma attribute_loop_Inr:
  assumes "attribute_loop host files sep infos deps calls acc = (calls', Inr attrs)"
  shows "\<exists>new. attrs = acc @ new \<and> map packageFqn new = map pkg deps
           \<and> map packageName new = map name deps
           \<and> map packageVersion new = map version deps"
  using assms
proof (induction deps arbitrary: calls acc)
  case Nil
  then show ?case by simp
next
  case (Cons dep rest)
  obtain made r where loc: "locate_info host infos dep = (made, r)"
    by (cases "locate_info host infos dep")
  from Cons.prems loc obtain info where r: "r = Inr (Some info)"
    by (cases r; cases "projr r") (auto split: option.splits)
  from Cons.prems loc r obtain a where
    mk: "make_attribution files sep dep info = Inr a"
    by (cases "make_attribution files sep dep info") auto
  from Cons.prems loc r mk have
    "attribute_loop host files sep infos rest (calls @ made) (acc @ [a]) = (calls', Inr attrs)"
    by simp
  from Cons.IH [OF this] obtain new where
    new: "attrs = (acc @ [a]) @ new" "map packageFqn new = map pkg rest"
         "map packageName new = map name rest" "map packageVersion new = map version rest"
    by blast
  show ?case
    using new make_attribution_Inr [OF mk]
    by (intro exI [of _ "a # new"]) simp
qed

lemma attribute_Inr:
  assumes "attribute host files sep root deps = (calls, Inr attrs)"
  shows "map packageFqn attrs = map pkg deps \<and> map packageName attrs = map name deps
         \<and> map packageVersion attrs = map version deps"
proof (cases "deps = []")
  case True
  then show ?thesis using assms by (simp add: attribute_def)
next
  case False
  from assms False obtain infos where
    "attribute_loop host files sep infos deps [(root, join '';'' (map pkg deps))] [] =
       (calls, Inr attrs)"
    by (auto simp: attribute_def Let_def split: sum.splits)
  from attribute_loop_Inr [OF this] show ?thesis by simp
qed

lemma Attributions_new_Inr:
  assumes "Attributions_new host files props = (calls, Inr this)"
  shows "\<exists>deps. filter_dependencies host (props_exclude props) (props_dependencies props) = Inr deps
           \<and> this_dependencies this = deps
           \<and> attribute host files (truthy (this_versionsPath this)) (props_dependenciesRoot props) deps
               = (calls, Inr (this_attributions this))
           \<and> render (localeCompare host) (truthy (this_versionsPath this)) (props_packageName props)
                (this_attributions this) = Inr (this_licenses this, this_versions this)
           \<and> this_allowedLicenses this = map toLowerCase (props_allowedLicenses props)
           \<and> this_licensesPath this = path_join host (props_packageDir props) (props_licensesPath props)
           \<and> this_packageDir this = props_packageDir props"
  using assms unfolding Attributions_new_def Let_def
  by (auto split: sum.splits prod.splits)


lemma tree_new: "Attributions_new tree_host tree_files tree_props = (tree_calls, Inr tree_this)"
  by code_simp

lemma tree_render:
  "render letter_collation True ''consumer'' tree_attributions = Inr (tree_licenses, tree_versions)"
  by code_simp

lemma tree_ordered:
  "map packageFqn (ordered letter_collation tree_attributions)
     = [''dep1@0.0.0'', ''dep2@0.0.0'', ''Dep3@1.2.0'']"
  by code_simp

lemma license_parts_mset:
  "mset (invalidLicense this) + mset (noLicense this) + mset (multiLicense this) =
   mset (concat (map (\<lambda>a. case license_violation (this_allowedLicenses this) a of
                              None \<Rightarrow> [] | Some v \<Rightarrow> [v]) (this_attributions this)))"
proof -
  have "mset (map f (filter (\<lambda>a. length (licenses a) = 1
                    \<and> toLowerCase (first_license a) \<notin> set allowed) attrs))
        + mset (map g (filter (\<lambda>a. length (licenses a) = 0) attrs))
        + mset (map h (filter (\<lambda>a. length (licenses a) > 1) attrs))
        = mset (concat (map (\<lambda>a. case licenses a of
                                    [] \<Rightarrow> [g a]
                                  | [l] \<Rightarrow> if toLowerCase l \<in> set allowed then [] else [f a]
                                  | _ \<Rightarrow> [h a]) attrs))"
    for f g h :: "Attribution \<Rightarrow> Violation" and allowed attrs
    by (induction attrs) (auto simp: first_license_def split: list.splits)
  note gen = this
  have eq: "(\<lambda>a. case license_violation (this_allowedLicenses this) a of
                              None \<Rightarrow> [] | Some v \<Rightarrow> [v])
      = (\<lambda>a. case licenses a of
            [] \<Rightarrow> [\<lparr> violation_type = NO_LICENSE,
                message = ''Dependency '' @ packageFqn a @ '' has no license'',
                violation_fix = None \<rparr>]
          | [l] \<Rightarrow> if toLowerCase l \<in> set (this_allowedLicenses this) then []
                   else [\<lparr> violation_type = INVALID_LICENSE,
                message = ''Dependency '' @ packageFqn a @ '' has an invalid license: ''
                          @ first_license a,
                violation_fix = None \<rparr>]
          | _ \<Rightarrow> [\<lparr> violation_type = MULTIPLE_LICENSE,
                message = ''Dependency '' @ packageFqn a @ '' has multiple licenses: ''
                          @ join '','' (licenses a),
                violation_fix = None \<rparr>])"
    by (rule ext) (auto simp: license_violation_def first_license_def split: list.splits)
  show ?thesis
    unfolding invalidLicense_def noLicense_def multiLicense_def eq
    by (rule gen)
qed

lemma filter_license_parts:
  "filter is_license_violation (invalidLicense this) = invalidLicense this"
  "filter is_license_violation (noLicense this) = noLicense this"
  "filter is_license_violation (multiLicense this) = multiLicense this"
  by (simp_all add: invalidLicense_def noLicense_def multiLicense_def is_license_violation_def
      filter_map o_def)

lemma license_part_types:
  "v \<in> set (invalidLicense this @ noLicense this @ multiLicense this) \<Longrightarrow>
     violation_type v \<in> {INVALID_LICENSE, NO_LICENSE, MULTIPLE_LICENSE} \<and> violation_fix v = None"
  by (auto simp: invalidLicense_def noLicense_def multiLicense_def)

lemma license_parts_empty:
  "invalidLicense this @ noLicense this @ multiLicense this = [] \<longleftrightarrow>
     (\<forall>a\<in>set (this_attributions this).
        \<exists>l. licenses a = [l] \<and> toLowerCase l \<in> set (this_allowedLicenses this))"
proof -
  have "(\<forall>a\<in>set (this_attributions this).
          \<not> (length (licenses a) = 1 \<and> toLowerCase (first_license a) \<notin> set (this_allowedLicenses this))
          \<and> length (licenses a) \<noteq> 0 \<and> \<not> length (licenses a) > 1)
        \<longleftrightarrow> (\<forall>a\<in>set (this_attributions this).
        \<exists>l. licenses a = [l] \<and> toLowerCase l \<in> set (this_allowedLicenses this))"
    by (intro ball_cong refl) (auto simp: first_license_def length_Suc_conv split: list.splits)
  then show ?thesis
    by (simp add: invalidLicense_def noLicense_def multiLicense_def filter_empty_conv) blast
qed


lemma of_char_toLowerCase_char:
  "(of_char (toLowerCase_char c) :: nat) =
     (if (0x41 \<le> (of_char c :: nat) \<and> (of_char c :: nat) \<le> 0x5A)
         \<or> (0xC0 \<le> (of_char c :: nat) \<and> (of_char c :: nat) \<le> 0xDE \<and> (of_char c :: nat) \<noteq> 0xD7)
      then of_char c + 32 else of_char c)"
  by (auto simp: toLowerCase_char_def Let_def)

lemma char_eq_code: "c = d \<longleftrightarrow> (of_char c :: nat) = of_char d"
  by simp

lemma toLowerCase_char_dot: "toLowerCase_char c = CHR ''.'' \<longleftrightarrow> c = CHR ''.''"
  unfolding char_eq_code [of _ "CHR ''.''"] of_char_toLowerCase_char by auto

lemma toLowerCase_char_m: "toLowerCase_char c = CHR ''m'' \<longleftrightarrow> c = CHR ''m'' \<or> c = CHR ''M''"
  unfolding char_eq_code [of _ "CHR ''m''"] char_eq_code [of _ "CHR ''M''"] of_char_toLowerCase_char
  by auto

lemma toLowerCase_char_d: "toLowerCase_char c = CHR ''d'' \<longleftrightarrow> c = CHR ''d'' \<or> c = CHR ''D''"
  unfolding char_eq_code [of _ "CHR ''d''"] char_eq_code [of _ "CHR ''D''"] of_char_toLowerCase_char
  by auto

lemma endsWith_md:
  "endsWith (toLowerCase f) ''.md'' \<longleftrightarrow> ends_in_md f"
proof (cases "3 \<le> length f")
  case False
  then show ?thesis by (simp add: endsWith_def ends_in_md_def toLowerCase_def)
next
  case True
  define e where "e = drop (length f - 3) f"
  have "length e = 3" using True by (simp add: e_def)
  then obtain a b c where e: "e = [a, b, c]"
    by (metis (no_types, opaque_lifting) length_0_conv length_Suc_conv numeral_3_eq_3)
  have "endsWith (toLowerCase f) ''.md'' \<longleftrightarrow> map toLowerCase_char e = ''.md''"
    using True by (simp add: endsWith_def toLowerCase_def e_def drop_map numeral_3_eq_3)
  also have "\<dots> \<longleftrightarrow> e \<in> set [''.md'', ''.mD'', ''.Md'', ''.MD'']"
    unfolding e by (auto simp: toLowerCase_char_dot toLowerCase_char_m toLowerCase_char_d)
  finally show ?thesis using True by (simp add: ends_in_md_def e_def)
qed

lemma make_attribution_texts:
  assumes "make_attribution files sep dep info = Inr a"
  shows "licenseText a =
           (case licenseFile info of
              None \<Rightarrow> None
            | Some f \<Rightarrow> if ends_in_md f \<or> f = [] then None else file_content files f)"
    and "noticeText a =
           (case noticeFile info of
              None \<Rightarrow> None
            | Some f \<Rightarrow> if f = [] then None else file_content files f)"
  using assms unfolding make_attribution_def Let_def endsWith_md
  by (auto simp: truthy_def readFileSync_def file_content_def
      split: sum.splits if_splits option.splits node.splits)

lemma block_body:
  "block sep a =
     [header sep a]
     @ (if truthy (noticeText a) then [the (noticeText a)]
        else if truthy (licenseText a) then [the (licenseText a)] else [])
     @ [ATTRIBUTION_SEPARATOR]"
  by (simp add: block_def body_def)


lemma keys_collect_versions:
  "fst ` set (collect_versions vs attrs) = fst ` set vs \<union> packageName ` set attrs"
  unfolding collect_versions_def
  by (induction attrs arbitrary: vs) (auto simp: keys_versions_update)

lemma filter_dependencies_exclude:
  assumes "truthy exclude" and "RegExp_new host (the exclude) = Inr test"
  shows "filter_dependencies host exclude deps = Inr (filter (\<lambda>d. \<not> test (name d)) deps)"
  using assms by (auto simp: filter_dependencies_def)


lemma locate_info_calls:
  "fst (locate_info host infos dep) = fallback_calls infos [dep]"
  by (simp add: locate_info_def fallback_calls_def split: option.splits)

lemma fallback_calls_Cons:
  "fallback_calls infos (d # ds) = fallback_calls infos [d] @ fallback_calls infos ds"
  by (simp add: fallback_calls_def)

lemma attribute_loop_calls_Inr:
  assumes "attribute_loop host files sep infos deps calls acc = (calls', Inr attrs)"
  shows "calls' = calls @ fallback_calls infos deps"
  using assms
proof (induction deps arbitrary: calls acc)
  case Nil
  then show ?case by (simp add: fallback_calls_def)
next
  case (Cons dep rest)
  obtain made r where loc: "locate_info host infos dep = (made, r)"
    by (cases "locate_info host infos dep")
  then have made: "made = fallback_calls infos [dep]"
    using locate_info_calls [of host infos dep] by simp
  from Cons.prems loc obtain info where r: "r = Inr (Some info)"
    by (cases r; cases "projr r") (auto split: option.splits)
  from Cons.prems loc r obtain a where
    mk: "make_attribution files sep dep info = Inr a"
    by (cases "make_attribution files sep dep info") auto
  from Cons.prems loc r mk have
    "attribute_loop host files sep infos rest (calls @ made) (acc @ [a]) = (calls', Inr attrs)"
    by simp
  from Cons.IH [OF this] show ?case
    using made fallback_calls_Cons [of infos dep rest] by simp
qed

lemma attribute_loop_calls_prefix:
  "\<exists>k\<le>length deps.
     fst (attribute_loop host files sep infos deps calls acc)
       = calls @ fallback_calls infos (take k deps)"
proof (induction deps arbitrary: calls acc)
  case Nil
  then show ?case by (simp add: fallback_calls_def)
next
  case (Cons dep rest)
  obtain made r where loc: "locate_info host infos dep = (made, r)"
    by (cases "locate_info host infos dep")
  then have made: "made = fallback_calls infos [dep]"
    using locate_info_calls [of host infos dep] by simp
  have one: "calls @ made = calls @ fallback_calls infos (take 1 (dep # rest))"
    using made by simp
  show ?case
  proof (cases "\<exists>info a. r = Inr (Some info) \<and> make_attribution files sep dep info = Inr a")
    case True
    then obtain info a where r: "r = Inr (Some info)"
      and mk: "make_attribution files sep dep info = Inr a" by blast
    from Cons.IH [of "calls @ made" "acc @ [a]"] obtain k where
      k: "k \<le> length rest"
         "fst (attribute_loop host files sep infos rest (calls @ made) (acc @ [a]))
            = (calls @ made) @ fallback_calls infos (take k rest)"
      by blast
    have "fst (attribute_loop host files sep infos (dep # rest) calls acc)
            = calls @ fallback_calls infos (take (Suc k) (dep # rest))"
      using k(2) loc r mk made fallback_calls_Cons [of infos dep "take k rest"] by simp
    then show ?thesis using k(1) by (intro exI [of _ "Suc k"]) simp
  next
    case False
    then have "fst (attribute_loop host files sep infos (dep # rest) calls acc) = calls @ made"
      using loc by (auto split: sum.splits option.splits)
    then show ?thesis using one by (intro exI [of _ 1]) simp
  qed
qed

lemma attribute_loop_append:
  "attribute_loop host files sep infos (pre @ rest) calls acc =
     (case attribute_loop host files sep infos pre calls acc of
        (c, Inl e) \<Rightarrow> (c, Inl e)
      | (c, Inr a) \<Rightarrow> attribute_loop host files sep infos rest c a)"
  by (induction pre arbitrary: calls acc)
     (auto split: prod.splits sum.splits option.splits)

lemma attribute_loop_not_located:
  assumes "infos (pkg d) = None"
    and "fetchInfos host (path d) [pkg d] = Inr own"
    and "own (pkg d) = None"
  shows "attribute_loop host files sep infos (d # post) calls acc
           = (calls @ [(path d, pkg d)], Inl (AttributionFailed (not_located d)))"
  using assms by (simp add: locate_info_def)

lemma tree_attribute:
  "attribute tree_host tree_files True ''/consumer/node_modules'' [dep2, Dep3, dep1]
     = (tree_calls, Inr tree_attributions)"
  by code_simp









lemma read_cases:
  "(\<not> existsSync files p \<and> file_content files p = None \<and> \<not> read_fails files p)
   \<or> (existsSync files p \<and> read_fails files p \<and> file_content files p = None
        \<and> (\<exists>e. readFileSync files p = Inl e))
   \<or> (existsSync files p \<and> \<not> read_fails files p
        \<and> (\<exists>c. readFileSync files p = Inr c \<and> file_content files p = Some c))"
  by (auto simp: existsSync_def read_fails_def readFileSync_def file_content_def
      split: option.splits node.splits)

lemma license_part_fix:
  "\<forall>v\<in>set (invalidLicense this @ noLicense this @ multiLicense this).
     violation_fix v = None \<and> is_license_violation v"
  by (auto simp: invalidLicense_def noLicense_def multiLicense_def is_license_violation_def)

lemma validate_Inr:
  assumes "\<not> read_fails files (this_licensesPath this)"
    and "truthy (this_versionsPath this) \<longrightarrow> \<not> read_fails files (the (this_versionsPath this))"
  shows "validate host files this =
           Inr (file_part host files this
                @ invalidLicense this @ noLicense this @ multiLicense this)"
proof -
  note l = read_cases [of files "this_licensesPath this"]
  note v = read_cases [of files "the (this_versionsPath this)"]
  show ?thesis
  proof (cases "truthy (this_versionsPath this)")
    case True
    then show ?thesis
      using assms l v unfolding validate_def Let_def file_part_def
      by (auto simp: show_path_def)
  next
    case False
    then show ?thesis
      using assms l unfolding validate_def Let_def file_part_def
      by (auto simp: show_path_def)
  qed
qed

lemma validate_Inl:
  assumes "read_fails files (this_licensesPath this)
           \<or> (truthy (this_versionsPath this) \<and> read_fails files (the (this_versionsPath this)))"
  shows "\<exists>e. validate host files this = Inl e"
proof -
  note l = read_cases [of files "this_licensesPath this"]
  note v = read_cases [of files "the (this_versionsPath this)"]
  show ?thesis
    using assms l v unfolding validate_def Let_def
    by (auto split: sum.splits)
qed

lemma validate_report:
  assumes "validate host files this = Inr vs"
  shows "\<not> read_fails files (this_licensesPath this)
         \<and> (truthy (this_versionsPath this) \<longrightarrow> \<not> read_fails files (the (this_versionsPath this)))
         \<and> vs = file_part host files this
                @ invalidLicense this @ noLicense this @ multiLicense this"
proof -
  have ok: "\<not> (read_fails files (this_licensesPath this)
           \<or> (truthy (this_versionsPath this) \<and> read_fails files (the (this_versionsPath this))))"
    using validate_Inl [of files this host] assms by auto
  then have "validate host files this =
           Inr (file_part host files this
                @ invalidLicense this @ noLicense this @ multiLicense this)"
    by (intro validate_Inr) auto
  then show ?thesis using ok assms by auto
qed

lemma file_part_fix:
  "\<forall>v\<in>set (file_part host files this).
     violation_fix v = Some (flush this) \<and> \<not> is_license_violation v"
  by (auto simp: file_part_def is_license_violation_def)

lemma flush_None:
  assumes "flush this files = (None, files')"
  shows "files' = files\<lparr> nodes :=
            (if truthy (this_versionsPath this)
             then ((nodes files)(realpath files (this_licensesPath this) \<mapsto> File (this_licenses this)))
                    (realpath files (the (this_versionsPath this)) \<mapsto> File (this_versions this))
             else (nodes files)(realpath files (this_licensesPath this) \<mapsto> File (this_licenses this))) \<rparr>"
    and "write_error files (this_licensesPath this) = None"
    and "truthy (this_versionsPath this) \<longrightarrow> write_error files (the (this_versionsPath this)) = None"
  using assms unfolding flush_def writeFileSync_def
  by (auto split: option.splits node.splits sum.splits if_splits)

lemma flush_again:
  assumes "flush this files = (None, files')"
  shows "flush this files' = (None, files')"
proof -
  note f = flush_None [OF assms]
  have r: "realpath files' = realpath files" "write_error files' = write_error files"
    by (simp_all add: f(1))
  show ?thesis
  proof (cases "truthy (this_versionsPath this)")
    case True
    then show ?thesis
      using f(2,3) unfolding flush_def writeFileSync_def r
      by (auto simp: f(1))
  next
    case False
    then show ?thesis
      using f(2) unfolding flush_def writeFileSync_def r
      by (auto simp: f(1))
  qed
qed

lemma run_fixes_flush:
  assumes "\<forall>v\<in>set vs. violation_fix v = None \<or> violation_fix v = Some (flush this)"
    and "run_fixes vs files = (None, files')"
  shows "if \<exists>v\<in>set vs. violation_fix v \<noteq> None
         then flush this files = (None, files') else files' = files"
  using assms
proof (induction vs arbitrary: files)
  case Nil
  then show ?case by simp
next
  case (Cons v vs)
  show ?case
  proof (cases "violation_fix v")
    case None
    then show ?thesis using Cons by simp
  next
    case (Some f)
    then have f: "f = flush this" using Cons.prems(1) by simp
    obtain r f1 where fl: "flush this files = (r, f1)" by (cases "flush this files")
    have r: "r = None"
      using Cons.prems(2) Some f fl by (cases r) auto
    then have rest: "run_fixes vs f1 = (None, files')"
      using Cons.prems(2) Some f fl by simp
    have "if \<exists>v\<in>set vs. violation_fix v \<noteq> None
          then flush this f1 = (None, files') else files' = f1"
      using Cons.IH [OF _ rest] Cons.prems(1) by simp
    moreover have "flush this f1 = (None, f1)"
      using fl r flush_again by simp
    ultimately have "files' = f1" by (auto split: if_splits)
    then show ?thesis using fl r Some by simp
  qed
qed

lemma validate_fixes:
  assumes "validate host files this = Inr vs"
  shows "\<forall>v\<in>set vs. violation_fix v = None \<or> violation_fix v = Some (flush this)"
  using validate_report [OF assms] file_part_fix [of host files this] license_part_fix [of this]
  by auto

lemma filter_unfixable:
  assumes "validate host files this = Inr vs"
  shows "filter (\<lambda>v. violation_fix v = None) vs
           = invalidLicense this @ noLicense this @ multiLicense this"
proof -
  have a: "filter (\<lambda>v. violation_fix v = None) (file_part host files this) = []"
    using file_part_fix [of host files this] by (auto simp: filter_empty_conv)
  have b: "filter (\<lambda>v. violation_fix v = None)
             (invalidLicense this @ noLicense this @ multiLicense this)
           = invalidLicense this @ noLicense this @ multiLicense this"
    using license_part_fix [of this] by (intro filter_True) auto
  show ?thesis
    using validate_report [OF assms] a b by simp
qed

lemma file_part_clean:
  assumes "file_content files (this_licensesPath this) = Some (this_licenses this)"
    and "truthy (this_versionsPath this) \<longrightarrow>
           file_content files (the (this_versionsPath this)) = Some (this_versions this)"
  shows "file_part host files this = []"
    and "\<not> read_fails files (this_licensesPath this)"
    and "truthy (this_versionsPath this) \<longrightarrow> \<not> read_fails files (the (this_versionsPath this))"
  using assms read_cases [of files "this_licensesPath this"]
    read_cases [of files "the (this_versionsPath this)"]
  by (auto simp: file_part_def)

lemma file_violations_when_reported:
  assumes "validate host files this = Inr vs"
  shows "((\<exists>v\<in>set vs. violation_type v = MISSING_LICENSES)
            \<longleftrightarrow> \<not> existsSync files (this_licensesPath this))
   \<and> ((\<exists>v\<in>set vs. violation_type v = OUTDATED_LICENSES)
            \<longleftrightarrow> (\<exists>c. file_content files (this_licensesPath this) = Some c
                      \<and> c \<noteq> this_licenses this))
   \<and> ((\<exists>v\<in>set vs. violation_type v = MISSING_VERSIONS)
            \<longleftrightarrow> truthy (this_versionsPath this)
                \<and> \<not> existsSync files (the (this_versionsPath this)))
   \<and> ((\<exists>v\<in>set vs. violation_type v = OUTDATED_VERSIONS)
            \<longleftrightarrow> truthy (this_versionsPath this)
                \<and> (\<exists>c. file_content files (the (this_versionsPath this)) = Some c
                         \<and> c \<noteq> this_versions this))
   \<and> (\<forall>v\<in>set vs.
         violation_type v \<in> {MISSING_LICENSES, OUTDATED_LICENSES, MISSING_VERSIONS, OUTDATED_VERSIONS}
           \<longrightarrow> violation_fix v = Some (flush this))"
proof -
  let ?L = "invalidLicense this @ noLicense this @ multiLicense this"
  let ?F = "file_part host files this"
  have vs: "vs = ?F @ ?L" using validate_report [OF assms] by simp
  have L: "\<not> (\<exists>v\<in>set ?L. violation_type v = MISSING_LICENSES)"
    "\<not> (\<exists>v\<in>set ?L. violation_type v = OUTDATED_LICENSES)"
    "\<not> (\<exists>v\<in>set ?L. violation_type v = MISSING_VERSIONS)"
    "\<not> (\<exists>v\<in>set ?L. violation_type v = OUTDATED_VERSIONS)"
    using license_part_types [of _ this] by fastforce+
  have L5: "\<forall>v\<in>set ?L. violation_type v \<notin>
      {MISSING_LICENSES, OUTDATED_LICENSES, MISSING_VERSIONS, OUTDATED_VERSIONS}"
    using license_part_types [of _ this] by fastforce
  have 1: "(\<exists>v\<in>set ?F. violation_type v = MISSING_LICENSES)
            \<longleftrightarrow> \<not> existsSync files (this_licensesPath this)"
    by (auto simp: file_part_def)
  have 2: "(\<exists>v\<in>set ?F. violation_type v = OUTDATED_LICENSES)
            \<longleftrightarrow> (\<exists>c. file_content files (this_licensesPath this) = Some c
                      \<and> c \<noteq> this_licenses this)"
    by (auto simp: file_part_def)
  have 3: "(\<exists>v\<in>set ?F. violation_type v = MISSING_VERSIONS)
            \<longleftrightarrow> truthy (this_versionsPath this)
                \<and> \<not> existsSync files (the (this_versionsPath this))"
    by (auto simp: file_part_def)
  have 4: "(\<exists>v\<in>set ?F. violation_type v = OUTDATED_VERSIONS)
            \<longleftrightarrow> truthy (this_versionsPath this)
                \<and> (\<exists>c. file_content files (the (this_versionsPath this)) = Some c
                         \<and> c \<noteq> this_versions this)"
    by (auto simp: file_part_def)
  have 5: "\<forall>v\<in>set ?F. violation_fix v = Some (flush this)"
    using file_part_fix [of host files this] by blast
  have split: "\<And>P. (\<exists>v\<in>set vs. P v) \<longleftrightarrow> (\<exists>v\<in>set ?F. P v) \<or> (\<exists>v\<in>set ?L. P v)"
    unfolding vs by auto
  have a: "(\<exists>v\<in>set vs. violation_type v = MISSING_LICENSES)
            \<longleftrightarrow> \<not> existsSync files (this_licensesPath this)"
    unfolding split using L(1) 1 by simp
  have b: "(\<exists>v\<in>set vs. violation_type v = OUTDATED_LICENSES)
            \<longleftrightarrow> (\<exists>c. file_content files (this_licensesPath this) = Some c
                      \<and> c \<noteq> this_licenses this)"
    unfolding split using L(2) 2 by simp
  have c: "(\<exists>v\<in>set vs. violation_type v = MISSING_VERSIONS)
            \<longleftrightarrow> truthy (this_versionsPath this)
                \<and> \<not> existsSync files (the (this_versionsPath this))"
    unfolding split using L(3) 3 by simp
  have d: "(\<exists>v\<in>set vs. violation_type v = OUTDATED_VERSIONS)
            \<longleftrightarrow> truthy (this_versionsPath this)
                \<and> (\<exists>c. file_content files (the (this_versionsPath this)) = Some c
                         \<and> c \<noteq> this_versions this)"
    unfolding split using L(4) 4 by simp
  have e: "\<forall>v\<in>set vs.
         violation_type v \<in> {MISSING_LICENSES, OUTDATED_LICENSES, MISSING_VERSIONS, OUTDATED_VERSIONS}
           \<longrightarrow> violation_fix v = Some (flush this)"
  proof (intro ballI impI)
    fix v
    assume "v \<in> set vs"
      and t: "violation_type v \<in>
        {MISSING_LICENSES, OUTDATED_LICENSES, MISSING_VERSIONS, OUTDATED_VERSIONS}"
    then have "v \<in> set ?F \<or> v \<in> set ?L" unfolding vs by simp
    moreover have "v \<notin> set ?L" using L5 t by blast
    ultimately show "violation_fix v = Some (flush this)" using 5 by blast
  qed
  show ?thesis by (intro conjI a b c d e)
qed


subsection \<open>C1: the order of the blocks\<close>

text \<open>
  C1, as amended. \<open>render\<close> sorts with \<^verbatim>\<open>a1.packageFqn.localeCompare(a2.packageFqn)\<close>, the
  collation of the host. For every list of attributions on which \<open>render\<close> returns a
  document, and every consistent collation, the document is the preamble followed by the
  blocks of the very same attributions (each as often as it is in the list), in an order
  that ascends under the collation. Under the collation by code units the names are in
  ascending code-unit order; under a Unicode collation they need not be.
\<close>

theorem blocks_ascend_under_collation:
  assumes "consistent cmp"
    and "render cmp sep pn attrs = Inr (doc, vjson)"
  shows "doc = join [LF] (map replace_crlf
                 (preamble pn attrs @ concat (map (block sep) (ordered cmp attrs))))
         \<and> mset (ordered cmp attrs) = mset attrs
         \<and> sorted_wrt (\<lambda>a b. cmp (packageFqn a) (packageFqn b) \<le> 0) (ordered cmp attrs)
         \<and> sorted (map packageFqn (ordered code_unit_compare attrs))"
proof -
  have "sorted_wrt (\<lambda>a b. code_unit_compare (packageFqn a) (packageFqn b) \<le> 0)
          (ordered code_unit_compare attrs)"
    using consistent_code_unit_compare by (rule sorted_ordered)
  moreover have "\<And>x y. code_unit_compare x y \<le> 0 \<longleftrightarrow> x \<le> y"
    by (auto simp: code_unit_compare_def)
  ultimately have "sorted (map packageFqn (ordered code_unit_compare attrs))"
    by (simp add: sorted_wrt_map)
  then show ?thesis
    using render_cases [OF assms(2)] mset_ordered [of cmp attrs]
      sorted_ordered [OF assms(1), of attrs]
    by simp
qed

theorem blocks_ascend_under_collation_witness:
  "consistent letter_collation
   \<and> render letter_collation True ''consumer'' tree_attributions = Inr (tree_licenses, tree_versions)
   \<and> tree_licenses = join [LF] (map replace_crlf
         (preamble ''consumer'' tree_attributions
          @ concat (map (block True) (ordered letter_collation tree_attributions))))
   \<and> mset (ordered letter_collation tree_attributions) = mset tree_attributions
   \<and> sorted_wrt (\<lambda>a b. letter_collation (packageFqn a) (packageFqn b) \<le> 0)
         (ordered letter_collation tree_attributions)
   \<and> sorted (map packageFqn (ordered code_unit_compare tree_attributions))
   \<and> map packageFqn (ordered code_unit_compare tree_attributions)
        = [''Dep3@1.2.0'', ''dep1@0.0.0'', ''dep2@0.0.0'']"
proof -
  have "map packageFqn (ordered code_unit_compare tree_attributions)
        = [''Dep3@1.2.0'', ''dep1@0.0.0'', ''dep2@0.0.0'']"
    by code_simp
  then show ?thesis
    using blocks_ascend_under_collation [OF consistent_letter_collation tree_render]
      consistent_letter_collation tree_render
    by simp
qed

text \<open>
  C1 as it is written, with the order by code points, fails: under the letter collation
  the tree's document (\<open>tree_licenses\<close>) has the blocks of \<^verbatim>\<open>dep1@0.0.0\<close>,
  \<^verbatim>\<open>dep2@0.0.0\<close>, \<^verbatim>\<open>Dep3@1.2.0\<close> in this order, and \<^verbatim>\<open>Dep3@1.2.0\<close> is below
  \<^verbatim>\<open>dep1@0.0.0\<close> by code points.
\<close>

theorem blocks_not_in_code_point_order:
  "render letter_collation True ''consumer'' tree_attributions = Inr (tree_licenses, tree_versions)
   \<and> map packageFqn (ordered letter_collation tree_attributions)
        = [''dep1@0.0.0'', ''dep2@0.0.0'', ''Dep3@1.2.0'']
   \<and> ''Dep3@1.2.0'' < ''dep1@0.0.0''
   \<and> \<not> sorted (map packageFqn (ordered letter_collation tree_attributions))"
proof -
  have lt: "''Dep3@1.2.0'' < ''dep1@0.0.0''" by code_simp
  have "\<not> sorted [''dep1@0.0.0'', ''dep2@0.0.0'', ''Dep3@1.2.0'']"
    using lt by auto
  then show ?thesis using tree_render tree_ordered lt by simp
qed

subsection \<open>C2: the violations of the attribution files\<close>

text \<open>
  C2. With a directory where the licenses file is expected, \<^verbatim>\<open>fs.existsSync\<close> answers true
  and \<^verbatim>\<open>fs.readFileSync\<close> throws \<^verbatim>\<open>EISDIR\<close>: \<open>validate\<close> throws that error and returns no
  report, so it reports no violation of the licenses file at all, where C2 has it report
  one and where its own comment says that it never throws. The same holds with a
  directory where the versions file is expected. (Whenever \<open>validate\<close> does return a
  report, the four file violations are in it exactly as C2 says and each carries the fix
  \<open>flush this\<close>: lemma \<open>file_violations_when_reported\<close>.)
\<close>

theorem validate_throws_on_directory:
  "existsSync directory_files (this_licensesPath tree_this)
   \<and> readFileSync directory_files (this_licensesPath tree_this)
        = Inl (EISDIR ''/consumer/THIRD_PARTY_LICENSES'')
   \<and> map_sum id (map violation_type) (validate tree_host directory_files tree_this)
        = Inl (EISDIR ''/consumer/THIRD_PARTY_LICENSES'')
   \<and> map_sum id (map violation_type)
        (validate tree_host
           (tree_files\<lparr> nodes :=
              (nodes tree_files)(''/consumer/THIRD_PARTY_VERSIONS'' \<mapsto> Directory) \<rparr>)
           tree_this)
        = Inl (EISDIR ''/consumer/THIRD_PARTY_VERSIONS'')
   \<and> map_sum id (map violation_type) (validate tree_host tree_files tree_this)
        = Inr [MISSING_LICENSES, MISSING_VERSIONS, NO_LICENSE, MULTIPLE_LICENSE]"
  by code_simp

subsection \<open>C3: the license violations\<close>

text \<open>
  C3. The license violations in a report of \<open>validate\<close> are, as a multiset, one for every
  attribution that has one by the rule of the specification (\<open>license_violation\<close>, decided
  by the length of the list of licenses) and none for an attribution with exactly one
  allowed license. \<open>validate\<close> returns a report exactly when no attribution file that is
  there fails to be read. The allow-list of a constructed object is the configured one in
  lower case, so \<^verbatim>\<open>MIT\<close> in the configuration accepts a declared \<^verbatim>\<open>mit\<close>.
\<close>

theorem license_violations_by_length:
  "(validate host files this = Inr vs \<longrightarrow>
      mset (filter is_license_violation vs)
        = mset (concat (map (\<lambda>a. case license_violation (this_allowedLicenses this) a of
                                    None \<Rightarrow> [] | Some v \<Rightarrow> [v])
                            (this_attributions this))))
   \<and> ((\<exists>report. validate host files this = Inr report) \<longleftrightarrow>
        \<not> read_fails files (this_licensesPath this)
        \<and> (truthy (this_versionsPath this) \<longrightarrow>
             \<not> read_fails files (the (this_versionsPath this))))
   \<and> (Attributions_new host files0 props = (calls, Inr this) \<longrightarrow>
        this_allowedLicenses this = map toLowerCase (props_allowedLicenses props))"
proof (intro conjI impI)
  assume v: "validate host files this = Inr vs"
  have a: "filter is_license_violation (file_part host files this) = []"
    using file_part_fix [of host files this] by (auto simp: filter_empty_conv)
  have b: "filter is_license_violation
             (invalidLicense this @ noLicense this @ multiLicense this)
           = invalidLicense this @ noLicense this @ multiLicense this"
    using license_part_fix [of this] by (intro filter_True) auto
  have "mset (filter is_license_violation vs)
          = mset (invalidLicense this) + mset (noLicense this) + mset (multiLicense this)"
    using validate_report [OF v] a b by simp
  then show "mset (filter is_license_violation vs)
        = mset (concat (map (\<lambda>a. case license_violation (this_allowedLicenses this) a of
                                    None \<Rightarrow> [] | Some v \<Rightarrow> [v])
                            (this_attributions this)))"
    using license_parts_mset [of this] by simp
next
  show "(\<exists>report. validate host files this = Inr report) \<longleftrightarrow>
        \<not> read_fails files (this_licensesPath this)
        \<and> (truthy (this_versionsPath this) \<longrightarrow>
             \<not> read_fails files (the (this_versionsPath this)))"
    using validate_Inr [of files this host] validate_report [of host files this] by blast
next
  assume "Attributions_new host files0 props = (calls, Inr this)"
  from Attributions_new_Inr [OF this]
  show "this_allowedLicenses this = map toLowerCase (props_allowedLicenses props)"
    by blast
qed

theorem license_violations_by_length_witness:
  "Attributions_new tree_host tree_files tree_props = (tree_calls, Inr tree_this)
   \<and> props_allowedLicenses tree_props = [''Apache-2.0'', ''MIT'']
   \<and> this_allowedLicenses tree_this = map toLowerCase (props_allowedLicenses tree_props)
   \<and> map (\<lambda>a. (licenses a, map_option message (license_violation (this_allowedLicenses tree_this) a)))
          (this_attributions tree_this)
        = [([''Apache-2.0'', ''MIT''],
            Some ''Dependency dep2@0.0.0 has multiple licenses: Apache-2.0,MIT''),
           ([], Some ''Dependency Dep3@1.2.0 has no license''),
           ([''mit''], None)]
   \<and> map_option message (license_violation [''apache-2.0''] (tree_attributions ! 2))
        = Some ''Dependency dep1@0.0.0 has an invalid license: mit''
   \<and> \<not> read_fails tree_files (this_licensesPath tree_this)
   \<and> \<not> read_fails tree_files (the (this_versionsPath tree_this))
   \<and> validate tree_host tree_files tree_this
        = Inr (projr (validate tree_host tree_files tree_this))
   \<and> map (\<lambda>v. (violation_type v, message v))
          (filter is_license_violation (projr (validate tree_host tree_files tree_this)))
        = [(NO_LICENSE, ''Dependency Dep3@1.2.0 has no license''),
           (MULTIPLE_LICENSE, ''Dependency dep2@0.0.0 has multiple licenses: Apache-2.0,MIT'')]
   \<and> mset (filter is_license_violation (projr (validate tree_host tree_files tree_this)))
        = mset (concat (map (\<lambda>a. case license_violation (this_allowedLicenses tree_this) a of
                                    None \<Rightarrow> [] | Some v \<Rightarrow> [v])
                            (this_attributions tree_this)))"
proof -
  have a: "props_allowedLicenses tree_props = [''Apache-2.0'', ''MIT'']"
    by (simp add: tree_props_def)
  have b: "map (\<lambda>a. (licenses a, map_option message (license_violation (this_allowedLicenses tree_this) a)))
          (this_attributions tree_this)
        = [([''Apache-2.0'', ''MIT''],
            Some ''Dependency dep2@0.0.0 has multiple licenses: Apache-2.0,MIT''),
           ([], Some ''Dependency Dep3@1.2.0 has no license''),
           ([''mit''], None)]"
    by code_simp
  have c: "map_option message (license_violation [''apache-2.0''] (tree_attributions ! 2))
        = Some ''Dependency dep1@0.0.0 has an invalid license: mit''"
    by code_simp
  have d: "map (\<lambda>v. (violation_type v, message v))
          (filter is_license_violation (projr (validate tree_host tree_files tree_this)))
        = [(NO_LICENSE, ''Dependency Dep3@1.2.0 has no license''),
           (MULTIPLE_LICENSE, ''Dependency dep2@0.0.0 has multiple licenses: Apache-2.0,MIT'')]"
    by code_simp
  have e: "\<not> read_fails tree_files (this_licensesPath tree_this)"
    by code_simp
  have f: "\<not> read_fails tree_files (the (this_versionsPath tree_this))"
    by code_simp
  note th = license_violations_by_length [where host = tree_host and files = tree_files
              and this = tree_this and ?files0.0 = tree_files and props = tree_props
              and calls = tree_calls]
  from th [THEN conjunct2, THEN conjunct1] e f
  obtain report where r: "validate tree_host tree_files tree_this = Inr report"
    by blast
  then have g: "validate tree_host tree_files tree_this
        = Inr (projr (validate tree_host tree_files tree_this))"
    by simp
  have h: "mset (filter is_license_violation (projr (validate tree_host tree_files tree_this)))
        = mset (concat (map (\<lambda>a. case license_violation (this_allowedLicenses tree_this) a of
                                    None \<Rightarrow> [] | Some v \<Rightarrow> [v])
                            (this_attributions tree_this)))"
    using th [where vs = "projr (validate tree_host tree_files tree_this)",
              THEN conjunct1, rule_format, OF g] .
  have i: "this_allowedLicenses tree_this = map toLowerCase (props_allowedLicenses tree_props)"
    using th [THEN conjunct2, THEN conjunct2, rule_format, OF tree_new] .
  show ?thesis
    by (intro conjI tree_new a i b c e f g d h)
qed

subsection \<open>C4: the empty closure and the preamble\<close>



subsection \<open>C5: validating again after a fix\<close>

text \<open>
  C5, as amended. The fix rewrites the attribution files and nothing else. When
  \<open>licensesPath\<close> and \<open>versionsPath\<close> name different files of the disk, the files at these
  paths can be read, and a validation with fix returns its report \<open>vs\<close> (no read and no
  write has thrown), the validation that follows returns exactly the violations of \<open>vs\<close>
  that have no fix, the license violations; so it reports none of the four file
  violations, and it is empty exactly when every attribution has a single, allowed
  license.
\<close>

theorem second_validation_after_fix:
  assumes "truthy (this_versionsPath this) \<longrightarrow>
             realpath files (the (this_versionsPath this)) \<noteq> realpath files (this_licensesPath this)"
    and "read_error files (this_licensesPath this) = None"
    and "truthy (this_versionsPath this) \<longrightarrow> read_error files (the (this_versionsPath this)) = None"
    and "validate_fix host files this = (Inr vs, files')"
  shows "validate host files' this = Inr (filter (\<lambda>v. violation_fix v = None) vs)
         \<and> (\<forall>v\<in>set (filter (\<lambda>v. violation_fix v = None) vs).
               violation_type v \<in> {INVALID_LICENSE, NO_LICENSE, MULTIPLE_LICENSE})
         \<and> (filter (\<lambda>v. violation_fix v = None) vs = [] \<longleftrightarrow>
              (\<forall>a\<in>set (this_attributions this).
                 \<exists>l. licenses a = [l] \<and> toLowerCase l \<in> set (this_allowedLicenses this)))"
proof -
  let ?L = "invalidLicense this @ noLicense this @ multiLicense this"
  let ?lp = "this_licensesPath this"
  let ?vp = "the (this_versionsPath this)"
  from assms(4) have v: "validate host files this = Inr vs"
    and r: "run_fixes vs files = (None, files')"
    by (auto simp: validate_fix_def split: sum.splits prod.splits option.splits)
  note rep = validate_report [OF v]
  have unfix: "filter (\<lambda>v. violation_fix v = None) vs = ?L"
    using v by (rule filter_unfixable)
  note rf = run_fixes_flush [OF validate_fixes [OF v] r]
  have second: "validate host files' this = Inr ?L"
  proof (cases "\<exists>v\<in>set vs. violation_fix v \<noteq> None")
    case True
    then have fl: "flush this files = (None, files')" using rf by simp
    note f = flush_None(1) [OF fl]
    have lic: "file_content files' ?lp = Some (this_licenses this)"
      using assms(1,2) by (auto simp: f file_content_def)
    have ver: "truthy (this_versionsPath this) \<longrightarrow>
                 file_content files' ?vp = Some (this_versions this)"
      using assms(3) by (auto simp: f file_content_def)
    note c1 = file_part_clean(1) [OF lic ver, of host]
    note c2 = file_part_clean(2,3) [OF lic ver]
    show ?thesis
      using validate_Inr [OF c2, of host] c1 by simp
  next
    case False
    then have same: "files' = files" using rf by simp
    have "set (file_part host files this) \<subseteq> set vs" using rep by auto
    then have "file_part host files this = []"
      using False file_part_fix [of host files this]
      by (cases "file_part host files this") auto
    then show ?thesis using rep v same by simp
  qed
  have types: "\<forall>v\<in>set ?L. violation_type v \<in> {INVALID_LICENSE, NO_LICENSE, MULTIPLE_LICENSE}"
    using license_part_types [of _ this] by blast
  show ?thesis
    unfolding unfix second using types license_parts_empty [of this] by simp
qed

theorem second_validation_after_fix_witness:
  "truthy (this_versionsPath tree_this)
   \<and> realpath stale_files (the (this_versionsPath tree_this))
        \<noteq> realpath stale_files (this_licensesPath tree_this)
   \<and> read_error stale_files (this_licensesPath tree_this) = None
   \<and> read_error stale_files (the (this_versionsPath tree_this)) = None
   \<and> validate_fix tree_host stale_files tree_this
        = (Inr (projr (fst (validate_fix tree_host stale_files tree_this))),
           snd (validate_fix tree_host stale_files tree_this))
   \<and> map violation_type (projr (fst (validate_fix tree_host stale_files tree_this)))
        = [OUTDATED_LICENSES, OUTDATED_VERSIONS, NO_LICENSE, MULTIPLE_LICENSE]
   \<and> validate tree_host (snd (validate_fix tree_host stale_files tree_this)) tree_this
        = Inr (filter (\<lambda>v. violation_fix v = None)
                 (projr (fst (validate_fix tree_host stale_files tree_this))))
   \<and> map violation_type
         (filter (\<lambda>v. violation_fix v = None)
            (projr (fst (validate_fix tree_host stale_files tree_this))))
        = [NO_LICENSE, MULTIPLE_LICENSE]"
proof -
  let ?vs = "projr (fst (validate_fix tree_host stale_files tree_this))"
  let ?files' = "snd (validate_fix tree_host stale_files tree_this)"
  have t: "truthy (this_versionsPath tree_this)"
    by code_simp
  have p: "realpath stale_files (the (this_versionsPath tree_this))
             \<noteq> realpath stale_files (this_licensesPath tree_this)"
    by code_simp
  have r1: "read_error stale_files (this_licensesPath tree_this) = None"
    by code_simp
  have r2: "read_error stale_files (the (this_versionsPath tree_this)) = None"
    by code_simp
  have "\<not> isl (fst (validate_fix tree_host stale_files tree_this))"
    by code_simp
  then have "fst (validate_fix tree_host stale_files tree_this) = Inr ?vs"
    by (cases "fst (validate_fix tree_host stale_files tree_this)") simp_all
  then have run: "validate_fix tree_host stale_files tree_this = (Inr ?vs, ?files')"
    by (simp add: prod_eq_iff)
  have v: "map violation_type ?vs
        = [OUTDATED_LICENSES, OUTDATED_VERSIONS, NO_LICENSE, MULTIPLE_LICENSE]"
    by code_simp
  have f: "map violation_type (filter (\<lambda>v. violation_fix v = None) ?vs)
        = [NO_LICENSE, MULTIPLE_LICENSE]"
    by code_simp
  have p': "truthy (this_versionsPath tree_this) \<longrightarrow>
             realpath stale_files (the (this_versionsPath tree_this))
               \<noteq> realpath stale_files (this_licensesPath tree_this)"
    using p by simp
  have r2': "truthy (this_versionsPath tree_this) \<longrightarrow>
             read_error stale_files (the (this_versionsPath tree_this)) = None"
    using r2 by simp
  have s: "validate tree_host ?files' tree_this
             = Inr (filter (\<lambda>v. violation_fix v = None) ?vs)"
    using second_validation_after_fix [OF p' r1 r2' run, THEN conjunct1] .
  show ?thesis
    by (intro conjI t p r1 r2 run v s f)
qed

text \<open>
  C5 as it is written fails. On the tree, whose \<^verbatim>\<open>dep2\<close> declares two licenses and whose
  \<^verbatim>\<open>Dep3\<close> declares none, the validation after the fix still reports the two license
  violations. With one path for both files the fix writes the versions JSON over the
  document, so the document is reported as outdated again; and so it is with two paths
  that name one file, here a link to the licenses file as \<open>versionsPath\<close>.
\<close>

theorem second_validation_not_empty:
  "map_sum id (map violation_type)
       (validate tree_host (snd (validate_fix tree_host stale_files tree_this)) tree_this)
     = Inr [NO_LICENSE, MULTIPLE_LICENSE]
   \<and> map_sum id (map violation_type)
       (validate tree_host
          (snd (validate_fix tree_host stale_files
                  (tree_this\<lparr>this_versionsPath := Some ''/consumer/THIRD_PARTY_LICENSES''\<rparr>)))
          (tree_this\<lparr>this_versionsPath := Some ''/consumer/THIRD_PARTY_LICENSES''\<rparr>))
     = Inr [OUTDATED_LICENSES, NO_LICENSE, MULTIPLE_LICENSE]
   \<and> ''/consumer/LICENSES_LINK'' \<noteq> this_licensesPath tree_this
   \<and> map_sum id (map violation_type)
       (validate tree_host
          (snd (validate_fix tree_host stale_files
                  (tree_this\<lparr>this_versionsPath := Some ''/consumer/LICENSES_LINK''\<rparr>)))
          (tree_this\<lparr>this_versionsPath := Some ''/consumer/LICENSES_LINK''\<rparr>))
     = Inr [OUTDATED_LICENSES, NO_LICENSE, MULTIPLE_LICENSE]"
  by code_simp

subsection \<open>C6: the body of a block and the license text\<close>

text \<open>
  C6. In the document that \<open>render\<close> returns, the block of an attribution is its header,
  then the notice text when there is one, else the license text when there is one, else
  nothing, then the separator; a text is there when it is defined and not empty. And the
  license text of an attribution that \<open>attribute\<close> builds is the content of the probe's
  license file, unless the name of that file ends in \<^verbatim>\<open>.md\<close> in any case of the letters
  (or is empty), where no license text is taken.
\<close>

theorem body_and_license_text:
  "(render cmp sep pn attrs = Inr (doc, vjson) \<longrightarrow>
      doc = join [LF] (map replace_crlf
              (preamble pn attrs
               @ concat (map (\<lambda>a. [header sep a]
                                   @ (if truthy (noticeText a) then [the (noticeText a)]
                                      else if truthy (licenseText a) then [the (licenseText a)]
                                      else [])
                                   @ [ATTRIBUTION_SEPARATOR])
                             (ordered cmp attrs)))))
   \<and> (make_attribution files sep dep info = Inr a \<longrightarrow>
        licenseText a =
          (case licenseFile info of
             None \<Rightarrow> None
           | Some f \<Rightarrow> if ends_in_md f \<or> f = [] then None else file_content files f))"
proof (intro conjI impI)
  assume "render cmp sep pn attrs = Inr (doc, vjson)"
  from render_cases [OF this] show "doc = join [LF] (map replace_crlf
              (preamble pn attrs
               @ concat (map (\<lambda>a. [header sep a]
                                   @ (if truthy (noticeText a) then [the (noticeText a)]
                                      else if truthy (licenseText a) then [the (licenseText a)]
                                      else [])
                                   @ [ATTRIBUTION_SEPARATOR])
                             (ordered cmp attrs))))"
    using block_body by (simp add: block_body [abs_def])
next
  assume "make_attribution files sep dep info = Inr a"
  then show "licenseText a =
          (case licenseFile info of
             None \<Rightarrow> None
           | Some f \<Rightarrow> if ends_in_md f \<or> f = [] then None else file_content files f)"
    by (rule make_attribution_texts)
qed


theorem body_and_license_text_witness:
  "render letter_collation True ''consumer'' tree_attributions = Inr (tree_licenses, tree_versions)
   \<and> tree_licenses = join [LF] (map replace_crlf
         (preamble ''consumer'' tree_attributions
          @ concat (map (\<lambda>a. [header True a]
                              @ (if truthy (noticeText a) then [the (noticeText a)]
                                 else if truthy (licenseText a) then [the (licenseText a)]
                                 else [])
                              @ [ATTRIBUTION_SEPARATOR])
                        (ordered letter_collation tree_attributions))))
   \<and> make_attribution tree_files True dep2 info2 = Inr (tree_attributions ! 0)
   \<and> licenseFile info2 = Some ''/consumer/node_modules/dep2/README.MD''
   \<and> ends_in_md ''/consumer/node_modules/dep2/README.MD''
   \<and> licenseText (tree_attributions ! 0) = None
   \<and> make_attribution tree_files True dep1 info1 = Inr (tree_attributions ! 2)
   \<and> licenseFile info1 = Some ''/consumer/node_modules/dep1/LICENSE''
   \<and> \<not> ends_in_md ''/consumer/node_modules/dep1/LICENSE''
   \<and> licenseText (tree_attributions ! 2) = Some (''MIT License'' @ [CR, LF] @ ''Copyright'')"
proof -
  have m2: "make_attribution tree_files True dep2 info2 = Inr (tree_attributions ! 0)"
    by code_simp
  have m1: "make_attribution tree_files True dep1 info1 = Inr (tree_attributions ! 2)"
    by code_simp
  have f2: "licenseFile info2 = Some ''/consumer/node_modules/dep2/README.MD''"
    by (simp add: info2_def)
  have f1: "licenseFile info1 = Some ''/consumer/node_modules/dep1/LICENSE''"
    by (simp add: info1_def)
  have e2: "ends_in_md ''/consumer/node_modules/dep2/README.MD''"
    by code_simp
  have e1: "\<not> ends_in_md ''/consumer/node_modules/dep1/LICENSE''"
    by code_simp
  have c1: "file_content tree_files ''/consumer/node_modules/dep1/LICENSE''
              = Some (''MIT License'' @ [CR, LF] @ ''Copyright'')"
    by code_simp
  note r = body_and_license_text [where cmp = letter_collation and sep = True
             and pn = "''consumer''" and attrs = tree_attributions and doc = tree_licenses
             and vjson = tree_versions]
  have doc: "tree_licenses = join [LF] (map replace_crlf
         (preamble ''consumer'' tree_attributions
          @ concat (map (\<lambda>a. [header True a]
                              @ (if truthy (noticeText a) then [the (noticeText a)]
                                 else if truthy (licenseText a) then [the (licenseText a)]
                                 else [])
                              @ [ATTRIBUTION_SEPARATOR])
                        (ordered letter_collation tree_attributions))))"
    using r tree_render by blast
  have l2: "licenseText (tree_attributions ! 0) = None"
    using body_and_license_text [where files = tree_files and sep = True and dep = dep2
             and info = info2 and a = "tree_attributions ! 0"]
      m2 f2 e2 by simp
  have l1: "licenseText (tree_attributions ! 2) = Some (''MIT License'' @ [CR, LF] @ ''Copyright'')"
    using body_and_license_text [where files = tree_files and sep = True and dep = dep1
             and info = info1 and a = "tree_attributions ! 2"]
      m1 f1 e1 c1 by simp
  show ?thesis using tree_render doc m2 f2 e2 l2 m1 f1 e1 l1 by blast
qed

subsection \<open>C7: excluded dependencies\<close>

text \<open>
  C7. With an exclude pattern that the host compiles, the constructor does exactly what it
  does without a pattern on the list of the dependencies whose name does not match: the
  same calls of the probe, the same object or the same error. So in an object it returns
  the attributions are those of the dependencies that do not match, in their order; no
  block of the document and no key of the versions index belongs to a name that matches.
\<close>

theorem excluded_dependencies_absent:
  assumes "truthy (props_exclude props)"
    and "RegExp_new host (the (props_exclude props)) = Inr test"
  shows "Attributions_new host files props =
           Attributions_new host files
             (props\<lparr> props_exclude := None,
                     props_dependencies :=
                       filter (\<lambda>d. \<not> test (name d)) (props_dependencies props) \<rparr>)
         \<and> (Attributions_new host files props = (calls, Inr this) \<longrightarrow>
               map packageFqn (this_attributions this)
                 = map pkg (filter (\<lambda>d. \<not> test (name d)) (props_dependencies props))
             \<and> (\<forall>a\<in>set (this_attributions this). \<not> test (packageName a))
             \<and> this_licenses this =
                 join [LF] (map replace_crlf
                   (preamble (props_packageName props) (this_attributions this)
                    @ concat (map (block (truthy (this_versionsPath this)))
                                (ordered (localeCompare host) (this_attributions this)))))
             \<and> this_versions this =
                 JSON_stringify
                   (collect_versions [] (ordered (localeCompare host) (this_attributions this)))
             \<and> (\<forall>k\<in>fst ` set (collect_versions []
                                  (ordered (localeCompare host) (this_attributions this))).
                   \<not> test k))"
proof (intro conjI impI)
  let ?kept = "filter (\<lambda>d. \<not> test (name d)) (props_dependencies props)"
  have f: "filter_dependencies host (props_exclude props) (props_dependencies props) = Inr ?kept"
    using assms by (rule filter_dependencies_exclude)
  have g: "filter_dependencies host None ?kept = Inr ?kept"
    by (simp add: filter_dependencies_def truthy_def)
  show "Attributions_new host files props =
           Attributions_new host files
             (props\<lparr> props_exclude := None, props_dependencies := ?kept \<rparr>)"
    unfolding Attributions_new_def Let_def using f g
    by (simp split: prod.splits sum.splits)
  assume new: "Attributions_new host files props = (calls, Inr this)"
  let ?sep = "truthy (this_versionsPath this)"
  let ?attrs = "this_attributions this"
  from Attributions_new_Inr [OF new] f have
    att: "attribute host files ?sep (props_dependenciesRoot props) ?kept = (calls, Inr ?attrs)"
    and ren: "render (localeCompare host) ?sep (props_packageName props) ?attrs
                = Inr (this_licenses this, this_versions this)"
    by auto
  from attribute_Inr [OF att] have
    fq: "map packageFqn ?attrs = map pkg ?kept" and nm: "map packageName ?attrs = map name ?kept"
    by auto
  show "map packageFqn ?attrs = map pkg ?kept" by (rule fq)
  have "packageName ` set ?attrs = name ` set ?kept"
    using nm by (metis list.set_map)
  then have "packageName ` set ?attrs \<subseteq> {n. \<not> test n}" by auto
  then show names: "\<forall>a\<in>set ?attrs. \<not> test (packageName a)" by blast
  from render_cases [OF ren] show "this_licenses this =
                 join [LF] (map replace_crlf
                   (preamble (props_packageName props) ?attrs
                    @ concat (map (block ?sep) (ordered (localeCompare host) ?attrs))))"
    and "this_versions this =
                 JSON_stringify (collect_versions [] (ordered (localeCompare host) ?attrs))"
    by simp_all
  show "\<forall>k\<in>fst ` set (collect_versions [] (ordered (localeCompare host) ?attrs)). \<not> test k"
    using names by (auto simp: keys_collect_versions set_ordered)
qed

theorem excluded_dependencies_absent_witness:
  "truthy (props_exclude excluding_props)
   \<and> RegExp_new tree_host (the (props_exclude excluding_props)) = Inr (\<lambda>s. contains s ''dep2'')
   \<and> map name (props_dependencies excluding_props) = [''dep2'', ''Dep3'', ''dep1'']
   \<and> Attributions_new tree_host tree_files excluding_props =
         Attributions_new tree_host tree_files
           (excluding_props\<lparr> props_exclude := None,
                              props_dependencies :=
                                filter (\<lambda>d. \<not> contains (name d) ''dep2'')
                                  (props_dependencies excluding_props) \<rparr>)
   \<and> fst (Attributions_new tree_host tree_files excluding_props)
        = [(''/consumer/node_modules'', ''Dep3@1.2.0;dep1@0.0.0'')]
   \<and> map packageFqn
         (this_attributions (projr (snd (Attributions_new tree_host tree_files excluding_props))))
        = [''Dep3@1.2.0'', ''dep1@0.0.0'']
   \<and> map fst (collect_versions []
          (ordered (localeCompare tree_host)
             (this_attributions
                (projr (snd (Attributions_new tree_host tree_files excluding_props))))))
        = [''dep1'', ''Dep3'']"
proof -
  let ?X = "Attributions_new tree_host tree_files excluding_props"
  have t: "truthy (props_exclude excluding_props)"
    by code_simp
  have r: "RegExp_new tree_host (the (props_exclude excluding_props)) = Inr (\<lambda>s. contains s ''dep2'')"
    by (simp add: tree_host_def excluding_props_def)
  have n: "map name (props_dependencies excluding_props) = [''dep2'', ''Dep3'', ''dep1'']"
    by code_simp
  have c: "fst ?X = [(''/consumer/node_modules'', ''Dep3@1.2.0;dep1@0.0.0'')]"
    by code_simp
  have "\<not> isl (snd ?X)"
    by code_simp
  then have X: "?X = (fst ?X, Inr (projr (snd ?X)))"
    by (metis prod.collapse sum.collapse(2))
  have k: "map pkg (filter (\<lambda>d. \<not> contains (name d) ''dep2'') (props_dependencies excluding_props))
             = [''Dep3@1.2.0'', ''dep1@0.0.0'']"
    by code_simp
  have v: "map fst (collect_versions []
          (ordered (localeCompare tree_host) (this_attributions (projr (snd ?X)))))
        = [''dep1'', ''Dep3'']"
    by code_simp
  note th = excluded_dependencies_absent [OF t r, where files = tree_files
              and calls = "fst ?X" and this = "projr (snd ?X)"]
  have e: "?X = Attributions_new tree_host tree_files
           (excluding_props\<lparr> props_exclude := None,
                              props_dependencies :=
                                filter (\<lambda>d. \<not> contains (name d) ''dep2'')
                                  (props_dependencies excluding_props) \<rparr>)"
    using th by blast
  have "map packageFqn (this_attributions (projr (snd ?X)))
          = map pkg (filter (\<lambda>d. \<not> contains (name d) ''dep2'') (props_dependencies excluding_props))"
    using th X by blast
  then have f: "map packageFqn (this_attributions (projr (snd ?X))) = [''Dep3@1.2.0'', ''dep1@0.0.0'']"
    using k by simp
  show ?thesis using t r n e c f v by blast
qed

subsection \<open>C8: the calls of the probe\<close>

text \<open>
  C8, as amended. On a list of dependencies that is not empty, \<open>attribute\<close> first calls
  the probe once in \<open>dependenciesRoot\<close> with all the identifiers \<^verbatim>\<open>name@version\<close>, joined
  by semicolons. When that call returns \<open>infos\<close>, the calls that follow are the calls in
  the own directories of the dependencies that \<open>infos\<close> does not know, in order: all of
  them when \<open>attribute\<close> returns the attributions, and those of the dependencies up to the
  one where it throws otherwise. When the dependencies before \<open>d\<close> are attributed and \<open>d\<close>
  is known neither to \<open>infos\<close> nor to the probe in its own directory, \<open>attribute\<close> throws
  the error \<^verbatim>\<open>Unable to locate license information for ...\<close>; no object is constructed
  then, so no violation is reported.
\<close>

theorem probe_calls_and_failure:
  assumes "deps \<noteq> []"
  shows "(\<exists>rest. fst (attribute host files sep root deps)
                  = (root, join '';'' (map pkg deps)) # rest)
   \<and> (\<forall>infos. fetchInfos host root (map pkg deps) = Inr infos \<longrightarrow>
         (\<exists>k\<le>length deps.
            fst (attribute host files sep root deps)
              = (root, join '';'' (map pkg deps)) # fallback_calls infos (take k deps))
       \<and> (\<forall>attrs. snd (attribute host files sep root deps) = Inr attrs \<longrightarrow>
            fst (attribute host files sep root deps)
              = (root, join '';'' (map pkg deps)) # fallback_calls infos deps)
       \<and> (\<forall>pre d post calls1 acc1 own.
            deps = pre @ d # post
            \<and> attribute_loop host files sep infos pre [(root, join '';'' (map pkg deps))] []
                = (calls1, Inr acc1)
            \<and> infos (pkg d) = None
            \<and> fetchInfos host (path d) [pkg d] = Inr own
            \<and> own (pkg d) = None \<longrightarrow>
            attribute host files sep root deps
              = (calls1 @ [(path d, pkg d)], Inl (AttributionFailed (not_located d)))))"
proof (intro conjI allI impI)
  let ?global = "(root, join '';'' (map pkg deps))"
  show "\<exists>rest. fst (attribute host files sep root deps) = ?global # rest"
  proof (cases "fetchInfos host root (map pkg deps)")
    case (Inl e)
    then show ?thesis using assms by (simp add: attribute_def Let_def)
  next
    case (Inr infos)
    from attribute_loop_calls_prefix [of deps host files sep infos "[?global]" "[]"]
    show ?thesis using assms Inr by (auto simp: attribute_def Let_def)
  qed
next
  fix infos
  let ?global = "(root, join '';'' (map pkg deps))"
  assume i: "fetchInfos host root (map pkg deps) = Inr infos"
  then have att: "attribute host files sep root deps
                    = attribute_loop host files sep infos deps [?global] []"
    using assms by (simp add: attribute_def Let_def)
  show "\<exists>k\<le>length deps. fst (attribute host files sep root deps)
              = ?global # fallback_calls infos (take k deps)"
    using attribute_loop_calls_prefix [of deps host files sep infos "[?global]" "[]"] att
    by simp
  {
    fix attrs
    assume "snd (attribute host files sep root deps) = Inr attrs"
    then have "attribute_loop host files sep infos deps [?global] []
                 = (fst (attribute host files sep root deps), Inr attrs)"
      using att by (metis prod.collapse)
    from attribute_loop_calls_Inr [OF this]
    show "fst (attribute host files sep root deps) = ?global # fallback_calls infos deps"
      by simp
  }
  {
    fix pre d post calls1 acc1 own
    assume a: "deps = pre @ d # post
            \<and> attribute_loop host files sep infos pre [?global] [] = (calls1, Inr acc1)
            \<and> infos (pkg d) = None
            \<and> fetchInfos host (path d) [pkg d] = Inr own
            \<and> own (pkg d) = None"
    then have deps: "deps = pre @ d # post"
      and pre: "attribute_loop host files sep infos pre [?global] [] = (calls1, Inr acc1)"
      and miss: "infos (pkg d) = None" "fetchInfos host (path d) [pkg d] = Inr own"
                "own (pkg d) = None"
      by blast+
    have step: "attribute_loop host files sep infos (d # post) calls1 acc1
                 = (calls1 @ [(path d, pkg d)], Inl (AttributionFailed (not_located d)))"
      using miss by (rule attribute_loop_not_located)
    have whole: "attribute_loop host files sep infos (pre @ d # post) [?global] []
                 = (calls1 @ [(path d, pkg d)], Inl (AttributionFailed (not_located d)))"
      unfolding attribute_loop_append pre using step by (simp only: prod.case sum.case)
    have "attribute_loop host files sep infos deps [?global] []
            = attribute_loop host files sep infos (pre @ d # post) [?global] []"
      by (rule arg_cong [where f = "\<lambda>ds. attribute_loop host files sep infos ds [?global] []"])
         (rule deps)
    then show "attribute host files sep root deps
              = (calls1 @ [(path d, pkg d)], Inl (AttributionFailed (not_located d)))"
      by (simp only: att whole)
  }
qed

theorem probe_calls_and_failure_witness:
  "[dep2, Dep3, dep1] \<noteq> []
   \<and> fetchInfos tree_host ''/consumer/node_modules'' (map pkg [dep2, Dep3, dep1]) = Inr tree_infos
   \<and> attribute tree_host tree_files True ''/consumer/node_modules'' [dep2, Dep3, dep1]
        = (tree_calls, Inr tree_attributions)
   \<and> tree_calls = (''/consumer/node_modules'', join '';'' (map pkg [dep2, Dep3, dep1]))
                     # fallback_calls tree_infos [dep2, Dep3, dep1]
   \<and> [dep1, ghost, dep2] = [dep1] @ ghost # [dep2]
   \<and> fetchInfos tree_host ''/consumer/node_modules'' (map pkg [dep1, ghost, dep2]) = Inr tree_infos
   \<and> tree_infos (pkg ghost) = None
   \<and> fetchInfos tree_host (path ghost) [pkg ghost] = Inr Map.empty
   \<and> attribute tree_host tree_files True ''/consumer/node_modules'' [dep1, ghost, dep2]
        = ([(''/consumer/node_modules'', ''dep1@0.0.0;ghost@1.0.0;dep2@0.0.0''),
            (''/consumer/node_modules/ghost'', ''ghost@1.0.0'')],
           Inl (AttributionFailed
                  ''Unable to locate license information for ghost@1.0.0 (/consumer/node_modules/ghost)''))"
proof -
  let ?root = "''/consumer/node_modules''"
  have ne1: "[dep2, Dep3, dep1] \<noteq> []" by simp
  have ne2: "[dep1, ghost, dep2] \<noteq> []" by simp
  have split: "[dep1, ghost, dep2] = [dep1] @ ghost # [dep2]" by simp
  have lc: "license_checker tree_host ?root = (\<lambda>arg. Inr tree_infos)"
    by (simp add: tree_host_def)
  have g1: "fetchInfos tree_host ?root (map pkg [dep2, Dep3, dep1]) = Inr tree_infos"
    unfolding fetchInfos_def lc ..
  have g2: "fetchInfos tree_host ?root (map pkg [dep1, ghost, dep2]) = Inr tree_infos"
    unfolding fetchInfos_def lc ..
  have s1: "snd (attribute tree_host tree_files True ?root [dep2, Dep3, dep1]) = Inr tree_attributions"
    by (simp only: tree_attribute snd_conv)
  have f1: "fst (attribute tree_host tree_files True ?root [dep2, Dep3, dep1]) = tree_calls"
    by (simp only: tree_attribute fst_conv)
  note t1 = probe_calls_and_failure [OF ne1, where host = tree_host
              and files = tree_files and sep = True and root = ?root,
              THEN conjunct2, rule_format, OF g1]
  note t1c = t1 [THEN conjunct2, THEN conjunct1, rule_format, OF s1]
  have c1: "tree_calls = (?root, join '';'' (map pkg [dep2, Dep3, dep1]))
                     # fallback_calls tree_infos [dep2, Dep3, dep1]"
    using t1c unfolding f1 .
  have m: "tree_infos (pkg ghost) = None"
    by code_simp
  have lg: "license_checker tree_host (path ghost) = (\<lambda>arg. Inr Map.empty)"
    by (simp add: tree_host_def ghost_def)
  have o: "fetchInfos tree_host (path ghost) [pkg ghost] = Inr Map.empty"
    unfolding fetchInfos_def lg ..
  have e: "Map.empty (pkg ghost) = (None :: ModuleInfo option)"
    by simp
  have p: "attribute_loop tree_host tree_files True tree_infos [dep1]
             [(?root, join '';'' (map pkg [dep1, ghost, dep2]))] []
           = ([(?root, ''dep1@0.0.0;ghost@1.0.0;dep2@0.0.0'')], Inr [tree_attributions ! 2])"
    by code_simp
  have n: "not_located ghost
             = ''Unable to locate license information for ghost@1.0.0 (/consumer/node_modules/ghost)''"
    by code_simp
  have pg: "[(?root, ''dep1@0.0.0;ghost@1.0.0;dep2@0.0.0'')] @ [(path ghost, pkg ghost)]
       = [(?root, ''dep1@0.0.0;ghost@1.0.0;dep2@0.0.0''),
          (''/consumer/node_modules/ghost'', ''ghost@1.0.0'')]"
    by code_simp
  note t2 = probe_calls_and_failure [OF ne2, where host = tree_host
              and files = tree_files and sep = True and root = ?root,
              THEN conjunct2, rule_format, OF g2]
  note t2d = t2 [THEN conjunct2, THEN conjunct2, rule_format,
                 where pre = "[dep1]" and d = ghost and post = "[dep2]"
                   and own = Map.empty]
  have a2: "attribute tree_host tree_files True ?root [dep1, ghost, dep2]
        = ([(?root, ''dep1@0.0.0;ghost@1.0.0;dep2@0.0.0''),
            (''/consumer/node_modules/ghost'', ''ghost@1.0.0'')],
           Inl (AttributionFailed
                  ''Unable to locate license information for ghost@1.0.0 (/consumer/node_modules/ghost)''))"
    using t2d [OF conjI [OF split conjI [OF p conjI [OF m conjI [OF o e]]]]]
    unfolding n pg .
  show ?thesis
    by (intro conjI ne1 g1 tree_attribute c1 split g2 m o a2)
qed

text \<open>
  C8 as it is written fails on the empty list of dependencies, where the probe is not
  called at all. And a throw ends the loop: with \<^verbatim>\<open>ghost\<close> before \<^verbatim>\<open>dep2\<close>, the probe is
  never called in the directory of \<^verbatim>\<open>dep2\<close>, which the global result does not know.
\<close>

theorem probe_not_called:
  "attribute tree_host tree_files True ''/consumer/node_modules'' [] = ([], Inr [])
   \<and> tree_infos (pkg dep2) = None
   \<and> attribute tree_host tree_files True ''/consumer/node_modules'' [ghost, dep2]
        = ([(''/consumer/node_modules'', ''ghost@1.0.0;dep2@0.0.0''),
            (''/consumer/node_modules/ghost'', ''ghost@1.0.0'')],
           Inl (AttributionFailed
                  ''Unable to locate license information for ghost@1.0.0 (/consumer/node_modules/ghost)''))"
  by code_simp

subsection \<open>C9: two runs\<close>




subsection \<open>C10: an empty list of licenses\<close>

text \<open>
  C10. An empty \<open>licenses\<close> list never makes \<open>render\<close> fail. \<open>render\<close> fails only with
  the TypeError of the versions object, exactly when some package name is the name of a
  property of \<^verbatim>\<open>Object.prototype\<close>, whatever the licenses are; otherwise it returns the
  document of all blocks, and the block of an attribution without licenses has the header
  \<^verbatim>\<open>** <title> - <url> | undefined\<close>.
\<close>

theorem render_total_on_empty_licenses:
  "(render cmp sep pn attrs = Inl TypeError
      \<longleftrightarrow> (\<exists>a\<in>set attrs. packageName a \<in> set object_prototype_keys))
   \<and> ((\<forall>a\<in>set attrs. packageName a \<notin> set object_prototype_keys) \<longrightarrow>
        render cmp sep pn attrs =
          Inr (join [LF] (map replace_crlf
                 (preamble pn attrs @ concat (map (block sep) (ordered cmp attrs)))),
               JSON_stringify (collect_versions [] (ordered cmp attrs))))
   \<and> (licenses a = [] \<longrightarrow>
        block sep a =
          [''** '' @ title sep a @ '' - '' @ url a @ '' | undefined''] @ body a
          @ [ATTRIBUTION_SEPARATOR])"
proof (intro conjI impI)
  show "render cmp sep pn attrs = Inl TypeError
      \<longleftrightarrow> (\<exists>a\<in>set attrs. packageName a \<in> set object_prototype_keys)"
  proof
    assume l: "render cmp sep pn attrs = Inl TypeError"
    show "\<exists>a\<in>set attrs. packageName a \<in> set object_prototype_keys"
    proof (rule ccontr)
      assume "\<not> (\<exists>a\<in>set attrs. packageName a \<in> set object_prototype_keys)"
      then have "\<forall>a\<in>set attrs. packageName a \<notin> set object_prototype_keys" by blast
      from render_Inr [OF this, of cmp sep pn] l show False by simp
    qed
  next
    assume "\<exists>a\<in>set attrs. packageName a \<in> set object_prototype_keys"
    then show "render cmp sep pn attrs = Inl TypeError" by (rule render_Inl)
  qed
next
  assume "\<forall>a\<in>set attrs. packageName a \<notin> set object_prototype_keys"
  then show "render cmp sep pn attrs =
          Inr (join [LF] (map replace_crlf
                 (preamble pn attrs @ concat (map (block sep) (ordered cmp attrs)))),
               JSON_stringify (collect_versions [] (ordered cmp attrs)))"
    by (rule render_Inr)
next
  assume "licenses a = []"
  then show "block sep a =
          [''** '' @ title sep a @ '' - '' @ url a @ '' | undefined''] @ body a
          @ [ATTRIBUTION_SEPARATOR]"
    by (simp add: block_def header_def first_license_def)
qed

theorem render_total_on_empty_licenses_witness:
  "map packageName tree_attributions = [''dep2'', ''Dep3'', ''dep1'']
   \<and> licenses (tree_attributions ! 1) = []
   \<and> render letter_collation True ''consumer'' tree_attributions = Inr (tree_licenses, tree_versions)
   \<and> block True (tree_attributions ! 1) =
        [''** Dep3 - https://www.npmjs.com/package/Dep3 | undefined'',
         ATTRIBUTION_SEPARATOR]"
proof -
  have names: "\<forall>a\<in>set tree_attributions. packageName a \<notin> set object_prototype_keys"
    by code_simp
  have none: "licenses (tree_attributions ! 1) = []"
    by code_simp
  have shape: "[''** '' @ title True (tree_attributions ! 1) @ '' - '' @ url (tree_attributions ! 1)
                 @ '' | undefined''] @ body (tree_attributions ! 1) @ [ATTRIBUTION_SEPARATOR]
               = [''** Dep3 - https://www.npmjs.com/package/Dep3 | undefined'',
                  ATTRIBUTION_SEPARATOR]"
    by code_simp
  from render_total_on_empty_licenses
         [of letter_collation True "''consumer''" tree_attributions "tree_attributions ! 1"]
       names none
  have "block True (tree_attributions ! 1) =
          [''** '' @ title True (tree_attributions ! 1) @ '' - '' @ url (tree_attributions ! 1)
             @ '' | undefined''] @ body (tree_attributions ! 1) @ [ATTRIBUTION_SEPARATOR]"
    by blast
  moreover have "map packageName tree_attributions = [''dep2'', ''Dep3'', ''dep1'']"
    by code_simp
  ultimately show ?thesis using none tree_render shape by simp
qed

end
